theory Spec2Isabelle
  imports Main
begin

section \<open>The lock puzzle (src/src/App.tsx)\<close>

definition PIN_COUNT :: nat where
  "PIN_COUNT = 8"

definition TOLERANCE :: int where
  "TOLERANCE = 2"

text \<open>
  The unlock effect computes
  \<^verbatim>\<open>currentPositions.every((pos, i) => Math.abs(pos - targetPositions[i]) <= TOLERANCE)\<close>.
  The callback receives the element and its index. Reading \<^verbatim>\<open>targetPositions[i]\<close> beyond
  the end of the array gives \<^verbatim>\<open>undefined\<close>, the difference is then \<^verbatim>\<open>NaN\<close> and the
  comparison is false: that is the first conjunct of the callback below.
\<close>

definition allCorrect :: "int list \<Rightarrow> int list \<Rightarrow> bool" where
  "allCorrect targetPositions currentPositions =
     list_all
       (\<lambda>(i, pos). i < length targetPositions \<and> \<bar>pos - targetPositions ! i\<bar> \<le> TOLERANCE)
       (enumerate 0 currentPositions)"

text \<open>The body of the effect: the new value of the \<^verbatim>\<open>unlocked\<close> flag.\<close>

definition unlock_effect :: "int list \<Rightarrow> int list \<Rightarrow> bool \<Rightarrow> bool" where
  "unlock_effect targetPositions currentPositions unlocked =
     (if allCorrect targetPositions currentPositions \<and> \<not> unlocked then True else unlocked)"

section \<open>The snake game (src/unnamed/part_000)\<close>

subsection \<open>Tunables\<close>

definition GRID_COLS :: int where
  "GRID_COLS = 28"

definition GRID_ROWS :: int where
  "GRID_ROWS = 20"

definition START_SPEED_MS :: int where
  "START_SPEED_MS = 140"

definition MIN_SPEED_MS :: int where
  "MIN_SPEED_MS = 60"

definition TIME_LIMIT_S :: int where
  "TIME_LIMIT_S = 75"

definition OBSTACLE_INTERVAL_TICKS :: nat where
  "OBSTACLE_INTERVAL_TICKS = 18"

definition MAX_OBSTACLES :: nat where
  "MAX_OBSTACLES = 40"

definition POISON_INTERVAL_TICKS :: nat where
  "POISON_INTERVAL_TICKS = 23"

subsection \<open>Data\<close>

record Vec =
  x :: int
  y :: int

text \<open>The values of the \<^verbatim>\<open>DIRS\<close> table: up, down, left, right (each under two keys).\<close>

definition DIRS :: "Vec list" where
  "DIRS = [\<lparr>x = 0, y = -1\<rparr>, \<lparr>x = 0, y = 1\<rparr>, \<lparr>x = -1, y = 0\<rparr>, \<lparr>x = 1, y = 0\<rparr>]"

datatype reason = Hit | Timeout

datatype GameState = Idle | Running | Gameover string reason

text \<open>
  Numbers. The scores and the counters of the game are integers, and are kept as
  integers: JavaScript holds them in doubles, which are exact up to \<open>2^53\<close>, far beyond
  any score. The best score is read from the store when the component mounts and can
  be anything that \<^verbatim>\<open>Number\<close> returns; \<open>Num i\<close> is the integer \<open>i\<close>, \<open>NaN\<close> is
  \<^verbatim>\<open>NaN\<close>, and \<open>Unmodelled\<close> stands for a value on which the model is silent (a number
  that is not an integer of at most \<open>2^53\<close> in magnitude, or what \<^verbatim>\<open>Math.max\<close> makes of
  such a value).
\<close>

datatype jsnumber = Num int | NaN | Unmodelled

text \<open>\<^verbatim>\<open>Math.max\<close> of two arguments: \<^verbatim>\<open>NaN\<close> when either is.\<close>

fun Math_max :: "jsnumber \<Rightarrow> jsnumber \<Rightarrow> jsnumber" where
  "Math_max NaN _ = NaN"
| "Math_max _ NaN = NaN"
| "Math_max (Num a) (Num b) = Num (max a b)"
| "Math_max _ _ = Unmodelled"

text \<open>
  The entry \<^verbatim>\<open>snake.best\<close> of \<^verbatim>\<open>localStorage\<close>: absent, some text found there when
  the component mounts, or \<^verbatim>\<open>String(nb)\<close> for a number \<open>nb\<close> that the game has written.
  \<^verbatim>\<open>String\<close> is not spelled out: the entry keeps the number.
\<close>

datatype entry = Absent | Text string | Printed jsnumber

text \<open>
  The component's state and refs. \<^verbatim>\<open>obstaclesRef\<close> is a \<^verbatim>\<open>Set<string>\<close> of the keys
  \<^verbatim>\<open>`${v.x},${v.y}`\<close>; the key is injective on integer coordinates, so the set is kept as
  the list of its cells in insertion order, without duplicates. State setters with an
  updater function (\<^verbatim>\<open>setScore\<close>, \<^verbatim>\<open>setTickMs\<close>, \<^verbatim>\<open>setBest\<close>, \<^verbatim>\<open>setTimeLeft\<close>) are
  applied at once. \<^verbatim>\<open>storedBest\<close> is the entry \<^verbatim>\<open>snake.best\<close> of \<^verbatim>\<open>localStorage\<close>.

  \<^verbatim>\<open>Math.random\<close> is a supply of future results: \<^verbatim>\<open>cellDraws\<close> are the values that the
  object literal \<^verbatim>\<open>{x: Math.floor(Math.random() * GRID_COLS), y: Math.floor(Math.random() * GRID_ROWS)}\<close>
  will take, in order, and \<^verbatim>\<open>coinDraws\<close> the values of \<^verbatim>\<open>Math.random() < 0.6\<close>.
  A supply that runs out stands for a loop that finds no free cell: the operation
  does not return.
\<close>

record game =
  state :: GameState
  tickMs :: int
  timeLeft :: int
  score :: int
  best :: jsnumber
  scoreRef :: int
  snakeRef :: "Vec list"
  dirRef :: Vec
  nextDirRef :: Vec
  foodRef :: "Vec option"
  poisonRef :: "Vec option"
  obstaclesRef :: "Vec list"
  tickCountRef :: nat
  storedBest :: entry
  cellDraws :: "Vec list"
  coinDraws :: "bool list"

subsection \<open>Helpers\<close>

definition within :: "Vec \<Rightarrow> bool" where
  "within v = (x v \<ge> 0 \<and> x v < GRID_COLS \<and> y v \<ge> 0 \<and> y v < GRID_ROWS)"

text \<open>\<^verbatim>\<open>Set.prototype.add\<close>: a new element goes last, a present one changes nothing.\<close>

definition set_add :: "Vec \<Rightarrow> Vec list \<Rightarrow> Vec list" where
  "set_add k ks = (if k \<in> set ks then ks else ks @ [k])"

definition occupied :: "game \<Rightarrow> Vec set" where
  "occupied g =
     set (snakeRef g) \<union> set (obstaclesRef g) \<union> set_option (foodRef g) \<union> set_option (poisonRef g)"

text \<open>The do-while loop of \<^verbatim>\<open>randomEmptyCell\<close>: draw until the cell is not occupied.\<close>

fun randomEmptyCell_loop :: "Vec set \<Rightarrow> Vec list \<Rightarrow> (Vec \<times> Vec list) option" where
  "randomEmptyCell_loop occ [] = None"
| "randomEmptyCell_loop occ (v # vs) =
     (if v \<in> occ then randomEmptyCell_loop occ vs else Some (v, vs))"

definition randomEmptyCell :: "game \<Rightarrow> (Vec \<times> game) option" where
  "randomEmptyCell g =
     (case randomEmptyCell_loop (occupied g) (cellDraws g) of
        None \<Rightarrow> None
      | Some (v, rest) \<Rightarrow> Some (v, g\<lparr>cellDraws := rest\<rparr>))"

definition validateTurn :: "Vec \<Rightarrow> Vec \<Rightarrow> Vec" where
  "validateTurn cur next = (if x cur = - x next \<and> y cur = - y next then cur else next)"

text \<open>The placeholder is \<^verbatim>\<open>Code non d\<close>, e acute, \<^verbatim>\<open>bloqu\<close>, e acute (code unit 0xE9).\<close>

definition makeCode :: "int \<Rightarrow> int \<Rightarrow> string" where
  "makeCode scoreVal elapsedSec =
     (if scoreVal \<ge> 100 then ''4712''
      else ''Code non d'' @ [CHR 0xE9] @ ''bloqu'' @ [CHR 0xE9])"

subsection \<open>Operations\<close>

text \<open>
  \<^verbatim>\<open>endGame\<close>. The elapsed time is computed from the time left that the closure holds;
  \<^verbatim>\<open>makeCode\<close> does not use it.
\<close>

definition endGame :: "reason \<Rightarrow> game \<Rightarrow> game" where
  "endGame reason g =
     (let finalScore = scoreRef g;
          elapsed = TIME_LIMIT_S - timeLeft g;
          code = makeCode finalScore elapsed;
          nb = Math_max (best g) (Num finalScore)
      in g\<lparr>best := nb, storedBest := Printed nb, state := Gameover code reason\<rparr>)"

definition accel :: "game \<Rightarrow> game" where
  "accel g = g\<lparr>tickMs := max MIN_SPEED_MS (tickMs g - 4)\<rparr>"

text \<open>The two loops of \<^verbatim>\<open>start\<close> that lay the obstacles on the border.\<close>

definition start_obstacles :: "Vec list" where
  "start_obstacles =
     (let top_bottom = fold (\<lambda>i obs.
             let obs1 = (if i mod 3 = 0 then set_add \<lparr>x = i, y = 0\<rparr> obs else obs)
             in (if i mod 4 = 0 then set_add \<lparr>x = i, y = GRID_ROWS - 1\<rparr> obs1 else obs1))
           [0 .. GRID_COLS - 1] []
      in fold (\<lambda>j obs.
             let obs1 = (if j mod 3 = 0 then set_add \<lparr>x = 0, y = j\<rparr> obs else obs)
             in (if j mod 4 = 0 then set_add \<lparr>x = GRID_COLS - 1, y = j\<rparr> obs1 else obs1))
           [0 .. GRID_ROWS - 1] top_bottom)"

definition start :: "game \<Rightarrow> game option" where
  "start g =
     (let cx = GRID_COLS div 2;
          cy = GRID_ROWS div 2;
          g1 = g\<lparr>snakeRef := [\<lparr>x = cx - 1, y = cy\<rparr>, \<lparr>x = cx - 2, y = cy\<rparr>,
                               \<lparr>x = cx - 3, y = cy\<rparr>, \<lparr>x = cx - 4, y = cy\<rparr>],
                  dirRef := \<lparr>x = 1, y = 0\<rparr>,
                  nextDirRef := \<lparr>x = 1, y = 0\<rparr>,
                  obstaclesRef := start_obstacles\<rparr>
      in case randomEmptyCell g1 of
           None \<Rightarrow> None
         | Some (f, g2) \<Rightarrow>
             Some (g2\<lparr>foodRef := Some f, poisonRef := None, score := 0, scoreRef := 0,
                      tickMs := START_SPEED_MS, timeLeft := TIME_LIMIT_S, tickCountRef := 0,
                      state := Running\<rparr>))"

text \<open>Lines 202 to 216 of \<^verbatim>\<open>tick\<close>: the food. The result carries the flag \<^verbatim>\<open>grew\<close>.\<close>

definition tick_food :: "Vec \<Rightarrow> game \<Rightarrow> (bool \<times> game) option" where
  "tick_food head g =
     (case foodRef g of
        None \<Rightarrow> Some (False, g)
      | Some f \<Rightarrow>
          if x head = x f \<and> y head = y f then
            (let newScore = score g + 5;
                 g1 = g\<lparr>score := newScore, scoreRef := newScore\<rparr>
             in case randomEmptyCell g1 of
                  None \<Rightarrow> None
                | Some (v, g2) \<Rightarrow> Some (True, accel (g2\<lparr>foodRef := Some v\<rparr>)))
          else Some (False, g))"

text \<open>Lines 217 to 229: the poison.\<close>

definition tick_poison :: "Vec \<Rightarrow> game \<Rightarrow> game" where
  "tick_poison head g =
     (case poisonRef g of
        None \<Rightarrow> g
      | Some p \<Rightarrow>
          if x head = x p \<and> y head = y p then
            (let newScore = score g - 7
             in g\<lparr>score := newScore, scoreRef := newScore,
                  tickMs := max MIN_SPEED_MS (tickMs g - 8), poisonRef := None\<rparr>)
          else g)"

text \<open>Line 231: the tail is dropped unless the snake grew.\<close>

definition tick_pop :: "bool \<Rightarrow> game \<Rightarrow> game" where
  "tick_pop grew g = (if \<not> grew then g\<lparr>snakeRef := butlast (snakeRef g)\<rparr> else g)"

text \<open>Lines 233 to 240: the tick counter and the periodic obstacle.\<close>

definition tick_obstacle :: "game \<Rightarrow> game option" where
  "tick_obstacle g =
     (let g1 = g\<lparr>tickCountRef := tickCountRef g + 1\<rparr>
      in if tickCountRef g1 mod OBSTACLE_INTERVAL_TICKS = 0
            \<and> length (obstaclesRef g1) < MAX_OBSTACLES
         then (case randomEmptyCell g1 of
                 None \<Rightarrow> None
               | Some (ob, g2) \<Rightarrow> Some (g2\<lparr>obstaclesRef := set_add ob (obstaclesRef g2)\<rparr>))
         else Some g1)"

text \<open>
  Lines 241 to 243: the periodic poison. The coin \<^verbatim>\<open>Math.random() < 0.6\<close> is drawn
  first; with no coin left in the supply the model does not return.
\<close>

definition tick_respawn :: "game \<Rightarrow> game option" where
  "tick_respawn g =
     (if tickCountRef g mod POISON_INTERVAL_TICKS = 0 then
        (case coinDraws g of
           [] \<Rightarrow> None
         | c # cs \<Rightarrow>
             (let g1 = g\<lparr>coinDraws := cs\<rparr>
              in if c then
                   (case randomEmptyCell g1 of
                      None \<Rightarrow> None
                    | Some (p, g2) \<Rightarrow> Some (g2\<lparr>poisonRef := Some p\<rparr>))
                 else Some (g1\<lparr>poisonRef := None\<rparr>)))
      else Some g)"

text \<open>
  \<^verbatim>\<open>tick\<close>. With an empty body \<^verbatim>\<open>snakeRef.current[0]\<close> is \<^verbatim>\<open>undefined\<close>, the head's
  coordinates are \<^verbatim>\<open>NaN\<close> and \<^verbatim>\<open>within\<close> is false: the tick ends the game.
\<close>

definition tick :: "game \<Rightarrow> game option" where
  "tick g0 =
     (let g = g0\<lparr>dirRef := validateTurn (dirRef g0) (nextDirRef g0)\<rparr>
      in case snakeRef g of
           [] \<Rightarrow> Some (endGame Hit g)
         | s0 # _ \<Rightarrow>
             (let head = \<lparr>x = x s0 + x (dirRef g), y = y s0 + y (dirRef g)\<rparr>
              in if \<not> within head
                    \<or> head \<in> set (obstaclesRef g)
                    \<or> list_ex (\<lambda>s. x s = x head \<and> y s = y head) (snakeRef g)
                 then Some (endGame Hit g)
                 else
                   (case tick_food head (g\<lparr>snakeRef := head # snakeRef g\<rparr>) of
                      None \<Rightarrow> None
                    | Some (grew, g1) \<Rightarrow>
                        (case tick_obstacle (tick_pop grew (tick_poison head g1)) of
                           None \<Rightarrow> None
                         | Some g4 \<Rightarrow> tick_respawn g4))))"

text \<open>
  The timer part of \<^verbatim>\<open>step\<close>: the updater given to \<^verbatim>\<open>setTimeLeft\<close>, with \<open>n\<close> the value
  of \<^verbatim>\<open>Math.floor(dtSec)\<close>.
\<close>

definition countdown :: "int \<Rightarrow> game \<Rightarrow> game" where
  "countdown n g =
     (let nxt = max 0 (timeLeft g - n);
          g1 = (if nxt = 0 then endGame Timeout g else g)
      in g1\<lparr>timeLeft := nxt\<rparr>)"

text \<open>
  \<^verbatim>\<open>step\<close>, one animation frame. The phase is tested once, at the top. \<open>secs\<close> is
  \<^verbatim>\<open>Math.floor(dtSec)\<close>, so the timer runs when \<open>secs \<ge> 1\<close>, and \<open>due\<close> says whether
  \<^verbatim>\<open>dt >= tickMs\<close>: the clock and the two time stamps are not kept. The tick of a frame
  runs after its timer update, also when that update has just ended the game.
  Drawing and the request for the next frame leave the state alone.
\<close>

definition step :: "int \<Rightarrow> bool \<Rightarrow> game \<Rightarrow> game option" where
  "step secs due g =
     (if state g \<noteq> Running then Some g
      else
        (let g1 = (if secs \<ge> 1 then countdown secs g else g)
         in if due then tick g1 else Some g1))"

subsection \<open>The initializer of the best score\<close>

text \<open>
  \<^verbatim>\<open>Number(localStorage.getItem("snake.best") || 0)\<close>. \<^verbatim>\<open>getItem\<close> gives \<^verbatim>\<open>null\<close> for an
  absent entry; \<^verbatim>\<open>null\<close> and the empty string are falsy, so \<^verbatim>\<open>||\<close> replaces them by
  \<open>0\<close>; any other string goes to \<^verbatim>\<open>Number\<close>, the language's conversion of a string to a
  number. Strings are taken with code units below 256.

  The conversion is modelled where it is exact: a blank string is \<open>0\<close>, an optional
  sign with decimal digits that spell at most \<open>2^53\<close> is that integer, and a string
  without any digit that is not \<^verbatim>\<open>Infinity\<close> is \<^verbatim>\<open>NaN\<close>. Every other string (longer
  digit strings, which \<^verbatim>\<open>Number\<close> rounds to a double, a fraction, an exponent, a radix
  prefix, digits mixed with other characters, \<^verbatim>\<open>Infinity\<close>) is \<open>Unmodelled\<close>.
\<close>

definition StrWhiteSpaceChar :: "char \<Rightarrow> bool" where
  "StrWhiteSpaceChar c =
     (c \<in> set [CHR 0x09, CHR 0x0A, CHR 0x0B, CHR 0x0C, CHR 0x0D, CHR 0x20, CHR 0xA0])"

definition trim :: "string \<Rightarrow> string" where
  "trim s = rev (dropWhile StrWhiteSpaceChar (rev (dropWhile StrWhiteSpaceChar s)))"

definition DecimalDigit :: "char \<Rightarrow> bool" where
  "DecimalDigit c = (c \<in> set ''0123456789'')"

definition DecimalDigits_value :: "string \<Rightarrow> int" where
  "DecimalDigits_value ds = foldl (\<lambda>n c. 10 * n + (of_char c - 48)) 0 ds"

definition StringToNumber :: "string \<Rightarrow> jsnumber" where
  "StringToNumber s =
     (let t = trim s;
          negative = (case t of [] \<Rightarrow> False | c # _ \<Rightarrow> c = CHR ''-'');
          u = (case t of [] \<Rightarrow> [] | c # r \<Rightarrow> if c = CHR ''+'' \<or> c = CHR ''-'' then r else t)
      in if t = [] then Num 0
         else if u \<noteq> [] \<and> list_all DecimalDigit u \<and> DecimalDigits_value u \<le> 2 ^ 53 then
           Num (if negative then - DecimalDigits_value u else DecimalDigits_value u)
         else if list_ex DecimalDigit t \<or> u = ''Infinity'' then Unmodelled
         else NaN)"

definition best_initializer :: "string option \<Rightarrow> jsnumber" where
  "best_initializer stored =
     (case stored of
        None \<Rightarrow> Num 0
      | Some s \<Rightarrow> if s = [] then Num 0 else StringToNumber s)"

subsection \<open>The component as a whole\<close>

text \<open>
  The state of the component when it is mounted, with \<open>b\<close> the value of \<^verbatim>\<open>best\<close> and
  \<open>st\<close> what \<^verbatim>\<open>getItem\<close> returns for the stored entry. \<open>mount\<close> is that state with the
  initializer's own value.
\<close>

definition initial :: "jsnumber \<Rightarrow> string option \<Rightarrow> Vec list \<Rightarrow> bool list \<Rightarrow> game" where
  "initial b st cells coins =
     \<lparr>state = Idle, tickMs = START_SPEED_MS, timeLeft = TIME_LIMIT_S, score = 0, best = b,
      scoreRef = 0, snakeRef = [], dirRef = \<lparr>x = 1, y = 0\<rparr>, nextDirRef = \<lparr>x = 1, y = 0\<rparr>,
      foodRef = None, poisonRef = None, obstaclesRef = [], tickCountRef = 0,
      storedBest = (case st of None \<Rightarrow> Absent | Some s \<Rightarrow> Text s),
      cellDraws = cells, coinDraws = coins\<rparr>"

definition mount :: "string option \<Rightarrow> Vec list \<Rightarrow> bool list \<Rightarrow> game" where
  "mount st cells coins = initial (best_initializer st) st cells coins"

text \<open>
  What happens to the component: \<open>Start\<close> is the button or the start key, which act
  only when the phase is not running; \<open>Turn d\<close> is a key or a swipe that selects the
  entry \<open>d\<close> of \<^verbatim>\<open>DIRS\<close>; \<open>Frame secs due\<close> is an animation frame, a call of \<^verbatim>\<open>step\<close>.
\<close>

datatype event = Start | Turn Vec | Frame int bool

definition exec :: "event \<Rightarrow> game \<Rightarrow> game option" where
  "exec e g =
     (case e of
        Start \<Rightarrow> if state g \<noteq> Running then start g else Some g
      | Turn d \<Rightarrow> if d \<in> set DIRS then Some (g\<lparr>nextDirRef := d\<rparr>) else Some g
      | Frame secs due \<Rightarrow> step secs due g)"

fun run :: "event list \<Rightarrow> game \<Rightarrow> game option" where
  "run [] g = Some g"
| "run (e # es) g = (case exec e g of None \<Rightarrow> None | Some g1 \<Rightarrow> run es g1)"

text \<open>
  The cells of the supply that are free, each once: a tick draws at most three cells
  (food, obstacle, poison) and one coin.
\<close>

definition free_supply :: "game \<Rightarrow> Vec list" where
  "free_supply g = remdups (filter (\<lambda>v. v \<notin> occupied g) (cellDraws g))"

text \<open>Food, poison, obstacles and body do not overlap, and there is a food cell.\<close>

definition disjoint_cells :: "game \<Rightarrow> bool" where
  "disjoint_cells g =
     (case foodRef g of
        None \<Rightarrow> False
      | Some f \<Rightarrow>
          f \<notin> set (snakeRef g) \<and> f \<notin> set (obstaclesRef g) \<and> poisonRef g \<noteq> Some f
          \<and> (case poisonRef g of
                None \<Rightarrow> True
              | Some p \<Rightarrow> p \<notin> set (snakeRef g) \<and> p \<notin> set (obstaclesRef g))
          \<and> list_all (\<lambda>s. s \<notin> set (obstaclesRef g)) (snakeRef g))"

text \<open>
  What every configuration of a running game satisfies besides: food and poison lie
  in the grid, as every cell of the supply does, and the score and its ref agree.
\<close>

definition in_grid :: "game \<Rightarrow> bool" where
  "in_grid g =
     (list_all within (cellDraws g)
      \<and> (case foodRef g of None \<Rightarrow> True | Some f \<Rightarrow> within f)
      \<and> (case poisonRef g of None \<Rightarrow> True | Some p \<Rightarrow> within p)
      \<and> scoreRef g = score g)"

subsection \<open>Example configurations\<close>

text \<open>A game whose first food is drawn right in front of the snake.\<close>

definition ex_mounted :: game where
  "ex_mounted =
     initial (Num 0) None
       [\<lparr>x = 14, y = 10\<rparr>, \<lparr>x = 5, y = 5\<rparr>, \<lparr>x = 6, y = 6\<rparr>, \<lparr>x = 7, y = 7\<rparr>, \<lparr>x = 8, y = 8\<rparr>,
        \<lparr>x = 9, y = 9\<rparr>]
       [True]"

definition ex_running :: game where
  "ex_running =
     \<lparr>state = Running, tickMs = 140, timeLeft = 75, score = 0, best = Num 0, scoreRef = 0,
      snakeRef = [\<lparr>x = 13, y = 10\<rparr>, \<lparr>x = 12, y = 10\<rparr>, \<lparr>x = 11, y = 10\<rparr>, \<lparr>x = 10, y = 10\<rparr>],
      dirRef = \<lparr>x = 1, y = 0\<rparr>, nextDirRef = \<lparr>x = 1, y = 0\<rparr>,
      foodRef = Some \<lparr>x = 14, y = 10\<rparr>, poisonRef = None, obstaclesRef = start_obstacles,
      tickCountRef = 0, storedBest = Absent,
      cellDraws = [\<lparr>x = 5, y = 5\<rparr>, \<lparr>x = 6, y = 6\<rparr>, \<lparr>x = 7, y = 7\<rparr>, \<lparr>x = 8, y = 8\<rparr>,
                   \<lparr>x = 9, y = 9\<rparr>],
      coinDraws = [True]\<rparr>"

definition ex_fed :: game where
  "ex_fed =
     \<lparr>state = Running, tickMs = 136, timeLeft = 75, score = 5, best = Num 0, scoreRef = 5,
      snakeRef = [\<lparr>x = 14, y = 10\<rparr>, \<lparr>x = 13, y = 10\<rparr>, \<lparr>x = 12, y = 10\<rparr>, \<lparr>x = 11, y = 10\<rparr>,
                  \<lparr>x = 10, y = 10\<rparr>],
      dirRef = \<lparr>x = 1, y = 0\<rparr>, nextDirRef = \<lparr>x = 1, y = 0\<rparr>,
      foodRef = Some \<lparr>x = 5, y = 5\<rparr>, poisonRef = None, obstaclesRef = start_obstacles,
      tickCountRef = 1, storedBest = Absent,
      cellDraws = [\<lparr>x = 6, y = 6\<rparr>, \<lparr>x = 7, y = 7\<rparr>, \<lparr>x = 8, y = 8\<rparr>, \<lparr>x = 9, y = 9\<rparr>],
      coinDraws = [True]\<rparr>"

text \<open>A snake that heads right into the wall, with 105 points.\<close>

definition ex_wall :: game where
  "ex_wall =
     \<lparr>state = Running, tickMs = 100, timeLeft = 30, score = 105, best = Num 20, scoreRef = 105,
      snakeRef = [\<lparr>x = 27, y = 10\<rparr>, \<lparr>x = 26, y = 10\<rparr>, \<lparr>x = 25, y = 10\<rparr>, \<lparr>x = 24, y = 10\<rparr>],
      dirRef = \<lparr>x = 1, y = 0\<rparr>, nextDirRef = \<lparr>x = -1, y = 0\<rparr>,
      foodRef = Some \<lparr>x = 5, y = 5\<rparr>, poisonRef = Some \<lparr>x = 9, y = 9\<rparr>,
      obstaclesRef = start_obstacles, tickCountRef = 14, storedBest = Printed (Num 20),
      cellDraws = [\<lparr>x = 6, y = 6\<rparr>], coinDraws = [True]\<rparr>"


text \<open>
  A game of 45 ticks along a rectangle: the poison drawn at tick 23 lies where the
  head arrives at tick 46, when a poison is due again.
\<close>

definition ex_long_mounted :: game where
  "ex_long_mounted =
     initial (Num 0) None
       [\<lparr>x = 5, y = 5\<rparr>, \<lparr>x = 6, y = 6\<rparr>, \<lparr>x = 23, y = 10\<rparr>, \<lparr>x = 7, y = 7\<rparr>, \<lparr>x = 3, y = 3\<rparr>]
       [True, True]"

definition ex_long_events :: "event list" where
  "ex_long_events =
     Start # replicate 10 (Frame 0 True) @ Turn \<lparr>x = 0, y = 1\<rparr> # replicate 5 (Frame 0 True)
     @ Turn \<lparr>x = -1, y = 0\<rparr> # replicate 13 (Frame 0 True) @ Turn \<lparr>x = 0, y = -1\<rparr> # replicate 5 (Frame 0 True)
     @ Turn \<lparr>x = 1, y = 0\<rparr> # replicate 12 (Frame 0 True)"

definition ex_long_before :: game where
  "ex_long_before =
     \<lparr>state = Running, tickMs = 140, timeLeft = 75, score = 0, best = Num 0, scoreRef = 0,
      snakeRef = [\<lparr>x = 22, y = 10\<rparr>, \<lparr>x = 21, y = 10\<rparr>, \<lparr>x = 20, y = 10\<rparr>, \<lparr>x = 19, y = 10\<rparr>],
      dirRef = \<lparr>x = 1, y = 0\<rparr>, nextDirRef = \<lparr>x = 1, y = 0\<rparr>,
      foodRef = Some \<lparr>x = 5, y = 5\<rparr>, poisonRef = Some \<lparr>x = 23, y = 10\<rparr>,
      obstaclesRef = start_obstacles @ [\<lparr>x = 6, y = 6\<rparr>, \<lparr>x = 7, y = 7\<rparr>],
      tickCountRef = 45, storedBest = Absent, cellDraws = [\<lparr>x = 3, y = 3\<rparr>],
      coinDraws = [True]\<rparr>"

definition ex_long_after :: game where
  "ex_long_after =
     \<lparr>state = Running, tickMs = 132, timeLeft = 75, score = - 7, best = Num 0, scoreRef = - 7,
      snakeRef = [\<lparr>x = 23, y = 10\<rparr>, \<lparr>x = 22, y = 10\<rparr>, \<lparr>x = 21, y = 10\<rparr>, \<lparr>x = 20, y = 10\<rparr>],
      dirRef = \<lparr>x = 1, y = 0\<rparr>, nextDirRef = \<lparr>x = 1, y = 0\<rparr>,
      foodRef = Some \<lparr>x = 5, y = 5\<rparr>, poisonRef = Some \<lparr>x = 3, y = 3\<rparr>,
      obstaclesRef = start_obstacles @ [\<lparr>x = 6, y = 6\<rparr>, \<lparr>x = 7, y = 7\<rparr>],
      tickCountRef = 46, storedBest = Absent, cellDraws = [], coinDraws = []\<rparr>"


section \<open>Auxiliary facts\<close>

lemma Vec_eq_iff: "(x (a::Vec) = x b \<and> y a = y b) = (a = b)"
  by (cases a, cases b) simp

lemma loop_Some:
  "randomEmptyCell_loop occ cs = Some (v, rest) \<Longrightarrow>
     v \<notin> occ \<and> v \<in> set cs \<and> set rest \<subseteq> set cs \<and> set cs - occ - {v} \<subseteq> set rest"
  by (induction cs) (auto split: if_splits)

lemma loop_returns:
  "set cs - occ \<noteq> {} \<Longrightarrow> \<exists>v rest. randomEmptyCell_loop occ cs = Some (v, rest)"
  by (induction cs) auto


lemma randomEmptyCell_Some:
  assumes "randomEmptyCell g = Some (v, g')"
  obtains rest where "g' = g\<lparr>cellDraws := rest\<rparr>" "v \<notin> occupied g" "v \<in> set (cellDraws g)"
    "set rest \<subseteq> set (cellDraws g)" "set (cellDraws g) - occupied g - {v} \<subseteq> set rest"
proof -
  from assms obtain rest where l: "randomEmptyCell_loop (occupied g) (cellDraws g) = Some (v, rest)"
    and g': "g' = g\<lparr>cellDraws := rest\<rparr>"
    by (simp add: randomEmptyCell_def split: option.splits prod.splits)
  from loop_Some[OF l] g' that show thesis by blast
qed

lemma randomEmptyCell_returns:
  assumes "set (cellDraws g) - occupied g \<noteq> {}"
  shows "\<exists>v g'. randomEmptyCell g = Some (v, g')"
proof -
  from loop_returns[OF assms] obtain v rest
    where "randomEmptyCell_loop (occupied g) (cellDraws g) = Some (v, rest)" by blast
  then show ?thesis by (simp add: randomEmptyCell_def)
qed

lemma occupied_simps [simp]:
  "occupied (g\<lparr>cellDraws := cs\<rparr>) = occupied g"
  "occupied (g\<lparr>coinDraws := bs\<rparr>) = occupied g"
  "occupied (g\<lparr>score := a\<rparr>) = occupied g"
  "occupied (g\<lparr>scoreRef := a\<rparr>) = occupied g"
  "occupied (g\<lparr>tickMs := a\<rparr>) = occupied g"
  "occupied (g\<lparr>dirRef := d\<rparr>) = occupied g"
  "occupied (g\<lparr>tickCountRef := n\<rparr>) = occupied g"
  by (simp_all add: occupied_def)


lemma tick_food_cases:
  assumes "tick_food head g = Some (grew, g')"
  obtains (keep) "\<not> grew" "g' = g" "foodRef g \<noteq> Some head"
  | (eat) v rest where "grew" "foodRef g = Some head"
      "g' = g\<lparr>score := score g + 5, scoreRef := score g + 5, cellDraws := rest,
               foodRef := Some v, tickMs := max MIN_SPEED_MS (tickMs g - 4)\<rparr>"
      "v \<notin> occupied g" "v \<in> set (cellDraws g)" "set rest \<subseteq> set (cellDraws g)"
      "set (cellDraws g) - occupied g - {v} \<subseteq> set rest"
proof (cases "foodRef g = Some head")
  case False
  with assms have "\<not> grew \<and> g' = g"
    by (cases "foodRef g") (auto simp: tick_food_def Vec_eq_iff)
  with False keep show thesis by blast
next
  case True
  let ?g1 = "g\<lparr>score := score g + 5, scoreRef := score g + 5\<rparr>"
  from assms True obtain v g2 where r: "randomEmptyCell ?g1 = Some (v, g2)"
    and res: "grew" "g' = accel (g2\<lparr>foodRef := Some v\<rparr>)"
    by (auto simp: tick_food_def Let_def split: option.splits)
  from r obtain rest where g2: "g2 = ?g1\<lparr>cellDraws := rest\<rparr>" and v: "v \<notin> occupied ?g1"
      "v \<in> set (cellDraws ?g1)"
    and sub: "set rest \<subseteq> set (cellDraws ?g1)"
      "set (cellDraws ?g1) - occupied ?g1 - {v} \<subseteq> set rest"
    by (rule randomEmptyCell_Some)
  have eq: "g' = g\<lparr>score := score g + 5, scoreRef := score g + 5, cellDraws := rest,
               foodRef := Some v, tickMs := max MIN_SPEED_MS (tickMs g - 4)\<rparr>"
    by (simp add: res g2 accel_def)
  show thesis
    by (rule eat[OF res(1) True eq]) (use v sub in simp_all)
qed

lemma tick_obstacle_cases:
  assumes "tick_obstacle g = Some g'"
  obtains (skip) "g' = g\<lparr>tickCountRef := tickCountRef g + 1\<rparr>"
  | (spawn) ob rest where
      "g' = g\<lparr>tickCountRef := tickCountRef g + 1, cellDraws := rest,
               obstaclesRef := set_add ob (obstaclesRef g)\<rparr>"
      "ob \<notin> occupied g" "ob \<in> set (cellDraws g)" "set rest \<subseteq> set (cellDraws g)"
      "set (cellDraws g) - occupied g - {ob} \<subseteq> set rest"
proof (cases "Suc (tickCountRef g) mod OBSTACLE_INTERVAL_TICKS = 0
               \<and> length (obstaclesRef g) < MAX_OBSTACLES")
  case False
  with assms have "g' = g\<lparr>tickCountRef := tickCountRef g + 1\<rparr>"
    by (auto simp: tick_obstacle_def Let_def)
  with skip show thesis .
next
  case True
  let ?g1 = "g\<lparr>tickCountRef := tickCountRef g + 1\<rparr>"
  from assms True obtain ob g2 where r: "randomEmptyCell ?g1 = Some (ob, g2)"
    and res: "g' = g2\<lparr>obstaclesRef := set_add ob (obstaclesRef g2)\<rparr>"
    by (auto simp: tick_obstacle_def Let_def split: option.splits)
  from r obtain rest where g2: "g2 = ?g1\<lparr>cellDraws := rest\<rparr>" and v: "ob \<notin> occupied ?g1"
      "ob \<in> set (cellDraws ?g1)"
    and sub: "set rest \<subseteq> set (cellDraws ?g1)"
      "set (cellDraws ?g1) - occupied ?g1 - {ob} \<subseteq> set rest"
    by (rule randomEmptyCell_Some)
  have eq: "g' = g\<lparr>tickCountRef := tickCountRef g + 1, cellDraws := rest,
               obstaclesRef := set_add ob (obstaclesRef g)\<rparr>"
    by (simp add: res g2)
  show thesis
    by (rule spawn[OF eq]) (use v sub in simp_all)
qed

lemma tick_respawn_cases:
  assumes "tick_respawn g = Some g'"
  obtains (skip) "tickCountRef g mod POISON_INTERVAL_TICKS \<noteq> 0" "g' = g"
  | (clear) cs where "tickCountRef g mod POISON_INTERVAL_TICKS = 0" "coinDraws g = False # cs"
      "g' = g\<lparr>coinDraws := cs, poisonRef := None\<rparr>"
  | (spawn) cs p rest where "tickCountRef g mod POISON_INTERVAL_TICKS = 0" "coinDraws g = True # cs"
      "g' = g\<lparr>coinDraws := cs, cellDraws := rest, poisonRef := Some p\<rparr>"
      "p \<notin> occupied g" "p \<in> set (cellDraws g)" "set rest \<subseteq> set (cellDraws g)"
      "set (cellDraws g) - occupied g - {p} \<subseteq> set rest"
proof (cases "tickCountRef g mod POISON_INTERVAL_TICKS = 0")
  case False
  with assms have "g' = g" by (simp add: tick_respawn_def)
  with False skip show thesis by blast
next
  case due: True
  with assms obtain c cs where cs: "coinDraws g = c # cs"
    by (cases "coinDraws g") (auto simp: tick_respawn_def)
  show thesis
  proof (cases c)
    case False
    with assms due cs have eq: "g' = g\<lparr>coinDraws := cs, poisonRef := None\<rparr>"
      by (simp add: tick_respawn_def)
    from cs False have "coinDraws g = False # cs" by simp
    from clear[OF due this eq] show thesis .
  next
    case True
    let ?g1 = "g\<lparr>coinDraws := cs\<rparr>"
    from assms due cs True obtain p g2 where r: "randomEmptyCell ?g1 = Some (p, g2)"
      and res: "g' = g2\<lparr>poisonRef := Some p\<rparr>"
      by (auto simp: tick_respawn_def Let_def split: option.splits)
    from r obtain rest where g2: "g2 = ?g1\<lparr>cellDraws := rest\<rparr>" and v: "p \<notin> occupied ?g1"
        "p \<in> set (cellDraws ?g1)"
      and sub: "set rest \<subseteq> set (cellDraws ?g1)"
        "set (cellDraws ?g1) - occupied ?g1 - {p} \<subseteq> set rest"
      by (rule randomEmptyCell_Some)
    have eq: "g' = g\<lparr>coinDraws := cs, cellDraws := rest, poisonRef := Some p\<rparr>"
      by (simp add: res g2)
    from cs True have "coinDraws g = True # cs" by simp
    show thesis
      by (rule spawn[OF due \<open>coinDraws g = True # cs\<close> eq]) (use v sub in simp_all)
  qed
qed


lemma list_ex_head:
  "list_ex (\<lambda>s. x s = x head \<and> y s = y head) body = ((head :: Vec) \<in> set body)"
  by (simp add: list_ex_iff Vec_eq_iff)

lemma tick_hit:
  assumes "snakeRef g = s0 # rest" "d = validateTurn (dirRef g) (nextDirRef g)"
    "head = \<lparr>x = x s0 + x d, y = y s0 + y d\<rparr>"
    "\<not> within head \<or> head \<in> set (obstaclesRef g) \<or> head \<in> set (snakeRef g)"
  shows "tick g = Some (endGame Hit (g\<lparr>dirRef := d\<rparr>))"
  using assms(4) unfolding tick_def assms(2,3) list_ex_head
  by (simp add: Let_def assms(1))

lemma tick_empty:
  "snakeRef g = [] \<Longrightarrow>
     tick g = Some (endGame Hit (g\<lparr>dirRef := validateTurn (dirRef g) (nextDirRef g)\<rparr>))"
  by (simp add: tick_def Let_def)

lemma tick_move:
  assumes "snakeRef g = s0 # rest" "d = validateTurn (dirRef g) (nextDirRef g)"
    "head = \<lparr>x = x s0 + x d, y = y s0 + y d\<rparr>"
    "within head" "head \<notin> set (obstaclesRef g)" "head \<notin> set (snakeRef g)"
  shows "tick g =
     (case tick_food head (g\<lparr>dirRef := d, snakeRef := head # snakeRef g\<rparr>) of
        None \<Rightarrow> None
      | Some (grew, g1) \<Rightarrow>
          (case tick_obstacle (tick_pop grew (tick_poison head g1)) of
             None \<Rightarrow> None
           | Some g4 \<Rightarrow> tick_respawn g4))"
  using assms(4-6) unfolding tick_def assms(2,3) list_ex_head
  by (simp add: Let_def assms(1) split: option.splits prod.splits)

lemma set_set_add [simp]: "set (set_add k ks) = insert k (set ks)"
  by (auto simp: set_add_def)

lemma disjoint_cells_iff:
  "disjoint_cells g \<longleftrightarrow>
     (\<exists>f. foodRef g = Some f \<and> f \<notin> set (snakeRef g) \<and> f \<notin> set (obstaclesRef g)
          \<and> poisonRef g \<noteq> Some f)
     \<and> (\<forall>p. poisonRef g = Some p \<longrightarrow> p \<notin> set (snakeRef g) \<and> p \<notin> set (obstaclesRef g))
     \<and> set (snakeRef g) \<inter> set (obstaclesRef g) = {}"
  by (auto simp: disjoint_cells_def list_all_iff split: option.splits)

text \<open>Food and poison together: lines 200 to 229.\<close>

lemma disjoint_eat:
  assumes "disjoint_cells g" "head \<notin> set (obstaclesRef g)" "head \<notin> set (snakeRef g)"
    "tick_food head (g\<lparr>dirRef := d, snakeRef := head # snakeRef g\<rparr>) = Some (grew, g1)"
  shows "disjoint_cells (tick_poison head g1)"
  using assms(4)
proof (cases rule: tick_food_cases)
  case keep
  with assms(1-3) show ?thesis
    by (auto simp: disjoint_cells_iff tick_poison_def Vec_eq_iff Let_def split: option.splits)
next
  case (eat v rest)
  with assms(1-3) show ?thesis
    by (auto simp: disjoint_cells_iff tick_poison_def Vec_eq_iff Let_def occupied_def
             split: option.splits)
qed

lemma disjoint_pop: "disjoint_cells g \<Longrightarrow> disjoint_cells (tick_pop grew g)"
  by (auto simp: disjoint_cells_iff tick_pop_def dest: in_set_butlastD)

lemma disjoint_obstacle:
  assumes "disjoint_cells g" "tick_obstacle g = Some g'"
  shows "disjoint_cells g'"
  using assms(2)
proof (cases rule: tick_obstacle_cases)
  case skip
  with assms(1) show ?thesis by (simp add: disjoint_cells_iff)
next
  case (spawn ob rest)
  with assms(1) show ?thesis by (auto simp: disjoint_cells_iff occupied_def)
qed

lemma disjoint_respawn:
  assumes "disjoint_cells g" "tick_respawn g = Some g'"
  shows "disjoint_cells g'"
  using assms(2)
proof (cases rule: tick_respawn_cases)
  case skip
  with assms(1) show ?thesis by simp
next
  case (clear cs)
  with assms(1) show ?thesis by (auto simp: disjoint_cells_iff)
next
  case (spawn cs p rest)
  with assms(1) show ?thesis by (auto simp: disjoint_cells_iff occupied_def)
qed

lemma endGame_fields [simp]:
  "snakeRef (endGame r g) = snakeRef g" "obstaclesRef (endGame r g) = obstaclesRef g"
  "foodRef (endGame r g) = foodRef g" "poisonRef (endGame r g) = poisonRef g"
  "score (endGame r g) = score g" "scoreRef (endGame r g) = scoreRef g"
  "tickMs (endGame r g) = tickMs g" "tickCountRef (endGame r g) = tickCountRef g"
  "cellDraws (endGame r g) = cellDraws g" "coinDraws (endGame r g) = coinDraws g"
  "dirRef (endGame r g) = dirRef g" "nextDirRef (endGame r g) = nextDirRef g"
  "timeLeft (endGame r g) = timeLeft g"
  "state (endGame r g) = Gameover (makeCode (scoreRef g) (TIME_LIMIT_S - timeLeft g)) r"
  "best (endGame r g) = Math_max (best g) (Num (scoreRef g))"
  by (simp_all add: endGame_def Let_def)

lemma tick_cases:
  assumes "tick g = Some g'"
  obtains (hit) "g' = endGame Hit (g\<lparr>dirRef := validateTurn (dirRef g) (nextDirRef g)\<rparr>)"
  | (move) s0 rest head grew g1 g4 where "snakeRef g = s0 # rest"
      "head = \<lparr>x = x s0 + x (validateTurn (dirRef g) (nextDirRef g)),
                y = y s0 + y (validateTurn (dirRef g) (nextDirRef g))\<rparr>"
      "within head" "head \<notin> set (obstaclesRef g)" "head \<notin> set (snakeRef g)"
      "tick_food head (g\<lparr>dirRef := validateTurn (dirRef g) (nextDirRef g),
                           snakeRef := head # snakeRef g\<rparr>) = Some (grew, g1)"
      "tick_obstacle (tick_pop grew (tick_poison head g1)) = Some g4"
      "tick_respawn g4 = Some g'"
proof (cases "snakeRef g")
  case Nil
  with assms hit show thesis by (simp add: tick_empty)
next
  case (Cons s0 rest)
  define d where "d = validateTurn (dirRef g) (nextDirRef g)"
  define head where "head = \<lparr>x = x s0 + x d, y = y s0 + y d\<rparr>"
  show thesis
  proof (cases "\<not> within head \<or> head \<in> set (obstaclesRef g) \<or> head \<in> set (snakeRef g)")
    case True
    from tick_hit[OF Cons d_def head_def True] assms hit show thesis by (simp add: d_def)
  next
    case False
    then have ok: "within head" "head \<notin> set (obstaclesRef g)" "head \<notin> set (snakeRef g)"
      by simp_all
    from assms tick_move[OF Cons d_def head_def ok]
    obtain grew g1 g4 where
      "tick_food head (g\<lparr>dirRef := d, snakeRef := head # snakeRef g\<rparr>) = Some (grew, g1)"
      "tick_obstacle (tick_pop grew (tick_poison head g1)) = Some g4"
      "tick_respawn g4 = Some g'"
      by (auto split: option.splits)
    with move[OF Cons _ ok, of grew g1 g4] show thesis
      by (simp add: head_def d_def)
  qed
qed

lemma tick_disjoint:
  assumes "disjoint_cells g" "tick g = Some g'"
  shows "disjoint_cells g'"
  using assms(2)
proof (cases rule: tick_cases)
  case hit
  with assms(1) show ?thesis by (simp add: disjoint_cells_iff)
next
  case (move s0 rest head grew g1 g4)
  from disjoint_eat[OF assms(1) move(4,5,6)] have "disjoint_cells (tick_poison head g1)" .
  then have "disjoint_cells (tick_pop grew (tick_poison head g1))" by (rule disjoint_pop)
  then have "disjoint_cells g4" using move(7) by (rule disjoint_obstacle)
  then show ?thesis using move(8) by (rule disjoint_respawn)
qed

lemma tick_food_fields:
  assumes "tick_food head g = Some (grew, g1)"
  shows "snakeRef g1 = snakeRef g" "obstaclesRef g1 = obstaclesRef g" "poisonRef g1 = poisonRef g"
    "tickCountRef g1 = tickCountRef g" "coinDraws g1 = coinDraws g" "dirRef g1 = dirRef g"
    "nextDirRef g1 = nextDirRef g" "best g1 = best g" "state g1 = state g"
    "timeLeft g1 = timeLeft g" "storedBest g1 = storedBest g"
    "grew \<longleftrightarrow> foodRef g = Some head"
    "score g1 = (if grew then score g + 5 else score g)"
    "scoreRef g1 = (if grew then score g + 5 else scoreRef g)"
    "tickMs g1 = (if grew then max MIN_SPEED_MS (tickMs g - 4) else tickMs g)"
    "\<not> grew \<Longrightarrow> foodRef g1 = foodRef g"
  using assms by (cases rule: tick_food_cases; simp)+

lemma tick_poison_fields:
  "snakeRef (tick_poison head g) = snakeRef g" "obstaclesRef (tick_poison head g) = obstaclesRef g"
  "foodRef (tick_poison head g) = foodRef g"
  "tickCountRef (tick_poison head g) = tickCountRef g" "coinDraws (tick_poison head g) = coinDraws g"
  "cellDraws (tick_poison head g) = cellDraws g"
  "dirRef (tick_poison head g) = dirRef g" "nextDirRef (tick_poison head g) = nextDirRef g"
  "best (tick_poison head g) = best g" "state (tick_poison head g) = state g"
  "timeLeft (tick_poison head g) = timeLeft g" "storedBest (tick_poison head g) = storedBest g"
  "poisonRef (tick_poison head g) = (if poisonRef g = Some head then None else poisonRef g)"
  "score (tick_poison head g) = (if poisonRef g = Some head then score g - 7 else score g)"
  "scoreRef (tick_poison head g) = (if poisonRef g = Some head then score g - 7 else scoreRef g)"
  "tickMs (tick_poison head g) =
     (if poisonRef g = Some head then max MIN_SPEED_MS (tickMs g - 8) else tickMs g)"
  by (auto simp: tick_poison_def Let_def Vec_eq_iff split: option.splits)

lemma tick_pop_fields:
  "snakeRef (tick_pop grew g) = (if grew then snakeRef g else butlast (snakeRef g))"
  "obstaclesRef (tick_pop grew g) = obstaclesRef g"
  "foodRef (tick_pop grew g) = foodRef g" "poisonRef (tick_pop grew g) = poisonRef g"
  "tickCountRef (tick_pop grew g) = tickCountRef g" "coinDraws (tick_pop grew g) = coinDraws g"
  "cellDraws (tick_pop grew g) = cellDraws g"
  "dirRef (tick_pop grew g) = dirRef g" "nextDirRef (tick_pop grew g) = nextDirRef g"
  "best (tick_pop grew g) = best g" "state (tick_pop grew g) = state g"
  "timeLeft (tick_pop grew g) = timeLeft g" "storedBest (tick_pop grew g) = storedBest g"
  "score (tick_pop grew g) = score g" "scoreRef (tick_pop grew g) = scoreRef g"
  "tickMs (tick_pop grew g) = tickMs g"
  by (simp_all add: tick_pop_def)

lemma tick_obstacle_fields:
  assumes "tick_obstacle g = Some g'"
  shows "snakeRef g' = snakeRef g" "foodRef g' = foodRef g" "poisonRef g' = poisonRef g"
    "tickCountRef g' = tickCountRef g + 1" "coinDraws g' = coinDraws g" "dirRef g' = dirRef g"
    "nextDirRef g' = nextDirRef g" "best g' = best g" "state g' = state g"
    "timeLeft g' = timeLeft g" "storedBest g' = storedBest g"
    "score g' = score g" "scoreRef g' = scoreRef g" "tickMs g' = tickMs g"
  using assms by (cases rule: tick_obstacle_cases; simp)+

lemma tick_respawn_fields:
  assumes "tick_respawn g = Some g'"
  shows "snakeRef g' = snakeRef g" "foodRef g' = foodRef g" "obstaclesRef g' = obstaclesRef g"
    "tickCountRef g' = tickCountRef g" "dirRef g' = dirRef g"
    "nextDirRef g' = nextDirRef g" "best g' = best g" "state g' = state g"
    "timeLeft g' = timeLeft g" "storedBest g' = storedBest g"
    "score g' = score g" "scoreRef g' = scoreRef g" "tickMs g' = tickMs g"
  using assms by (cases rule: tick_respawn_cases; simp)+

text \<open>What a tick that moves the snake leaves behind, field by field.\<close>

lemma tick_move_fields:
  assumes "snakeRef g = s0 # rest"
    "head = \<lparr>x = x s0 + x (validateTurn (dirRef g) (nextDirRef g)),
              y = y s0 + y (validateTurn (dirRef g) (nextDirRef g))\<rparr>"
    "within head" "head \<notin> set (obstaclesRef g)" "head \<notin> set (snakeRef g)"
    "tick g = Some g'"
  shows "snakeRef g' = (if foodRef g = Some head then head # snakeRef g
                        else butlast (head # snakeRef g))"
    "score g' = score g + (if foodRef g = Some head then 5 else 0)
                  - (if poisonRef g = Some head then 7 else 0)"
    "tickMs g' =
       (let t1 = (if foodRef g = Some head then max MIN_SPEED_MS (tickMs g - 4) else tickMs g)
        in if poisonRef g = Some head then max MIN_SPEED_MS (t1 - 8) else t1)"
    "tickCountRef g' = tickCountRef g + 1"
    "dirRef g' = validateTurn (dirRef g) (nextDirRef g)"
    "nextDirRef g' = nextDirRef g" "state g' = state g" "best g' = best g"
    "timeLeft g' = timeLeft g" "storedBest g' = storedBest g"
    "foodRef g \<noteq> Some head \<Longrightarrow> foodRef g' = foodRef g"
proof -
  let ?d = "validateTurn (dirRef g) (nextDirRef g)"
  from assms(6) tick_move[OF assms(1) refl assms(2-5)]
  obtain grew g1 g4 where
    f: "tick_food head (g\<lparr>dirRef := ?d, snakeRef := head # snakeRef g\<rparr>) = Some (grew, g1)" and
    ob: "tick_obstacle (tick_pop grew (tick_poison head g1)) = Some g4" and
    r: "tick_respawn g4 = Some g'"
    by (auto split: option.splits)
  note fs = tick_food_fields[OF f] tick_poison_fields tick_pop_fields
    tick_obstacle_fields[OF ob] tick_respawn_fields[OF r]
  have grew: "grew \<longleftrightarrow> foodRef g = Some head" using fs(12) by simp
  show "snakeRef g' = (if foodRef g = Some head then head # snakeRef g
                        else butlast (head # snakeRef g))"
    using grew by (simp add: fs)
  show "score g' = score g + (if foodRef g = Some head then 5 else 0)
                  - (if poisonRef g = Some head then 7 else 0)"
    using grew by (simp add: fs)
  show "tickMs g' =
       (let t1 = (if foodRef g = Some head then max MIN_SPEED_MS (tickMs g - 4) else tickMs g)
        in if poisonRef g = Some head then max MIN_SPEED_MS (t1 - 8) else t1)"
    using grew by (simp add: fs Let_def)
  show "tickCountRef g' = tickCountRef g + 1" by (simp add: fs)
  show "dirRef g' = ?d" by (simp add: fs)
  show "nextDirRef g' = nextDirRef g" by (simp add: fs)
  show "state g' = state g" by (simp add: fs)
  show "best g' = best g" by (simp add: fs)
  show "timeLeft g' = timeLeft g" by (simp add: fs)
  show "storedBest g' = storedBest g" by (simp add: fs)
  show "foodRef g' = foodRef g" if "foodRef g \<noteq> Some head"
    using that grew by (simp add: fs)
qed

subsection \<open>The supply is enough\<close>

lemma set_free_supply: "set (free_supply g) = set (cellDraws g) - occupied g"
  by (auto simp: free_supply_def)

lemma length_free_supply: "length (free_supply g) = card (set (free_supply g))"
proof -
  have "distinct (free_supply g)" by (simp add: free_supply_def)
  then show ?thesis by (simp only: distinct_card)
qed

lemma free_less:
  assumes "set (free_supply g) - {v} \<subseteq> set (free_supply g')"
  shows "length (free_supply g) \<le> Suc (length (free_supply g'))"
proof -
  have "set (free_supply g) \<subseteq> insert v (set (free_supply g'))" using assms by blast
  then have "card (set (free_supply g)) \<le> card (insert v (set (free_supply g')))"
    by (intro card_mono) simp_all
  also have "\<dots> \<le> Suc (card (set (free_supply g')))" by (simp add: card_insert_if)
  finally show ?thesis by (simp add: length_free_supply)
qed

lemma free_mono:
  assumes "set (free_supply g) \<subseteq> set (free_supply g')"
  shows "length (free_supply g) \<le> length (free_supply g')"
  unfolding length_free_supply using assms by (intro card_mono) simp_all

lemma free_nonempty: "0 < length (free_supply g) \<Longrightarrow> set (cellDraws g) - occupied g \<noteq> {}"
  by (simp add: set_free_supply[symmetric])

lemma tick_food_returns:
  assumes "0 < length (free_supply g)"
  shows "\<exists>grew g1. tick_food head g = Some (grew, g1)"
proof -
  let ?g1 = "g\<lparr>score := score g + 5, scoreRef := score g + 5\<rparr>"
  have "set (cellDraws ?g1) - occupied ?g1 \<noteq> {}" using free_nonempty[OF assms] by simp
  from randomEmptyCell_returns[OF this] show ?thesis
    by (auto simp: tick_food_def Let_def split: option.splits)
qed

lemma tick_food_free:
  assumes "tick_food head g = Some (grew, g1)"
  shows "length (free_supply g) \<le> Suc (length (free_supply g1))"
  using assms
proof (cases rule: tick_food_cases)
  case keep
  then show ?thesis by simp
next
  case (eat v rest)
  then have "set (free_supply g) - {v} \<subseteq> set (free_supply g1)"
    by (auto simp: set_free_supply occupied_def)
  then show ?thesis by (rule free_less)
qed

lemma tick_poison_free: "length (free_supply g) \<le> length (free_supply (tick_poison head g))"
  by (rule free_mono)
     (auto simp: set_free_supply occupied_def tick_poison_fields split: if_splits)

lemma tick_pop_free: "length (free_supply g) \<le> length (free_supply (tick_pop grew g))"
  by (rule free_mono)
     (auto simp: set_free_supply occupied_def tick_pop_fields dest: in_set_butlastD)

lemma tick_obstacle_returns:
  assumes "0 < length (free_supply g)"
  shows "\<exists>g'. tick_obstacle g = Some g'"
proof -
  let ?g1 = "g\<lparr>tickCountRef := tickCountRef g + 1\<rparr>"
  have "set (cellDraws ?g1) - occupied ?g1 \<noteq> {}" using free_nonempty[OF assms] by simp
  from randomEmptyCell_returns[OF this] show ?thesis
    by (auto simp: tick_obstacle_def Let_def split: option.splits)
qed

lemma tick_obstacle_free:
  assumes "tick_obstacle g = Some g'"
  shows "length (free_supply g) \<le> Suc (length (free_supply g'))"
  using assms
proof (cases rule: tick_obstacle_cases)
  case skip
  then have "set (free_supply g) \<subseteq> set (free_supply g')" by (simp add: set_free_supply)
  from free_mono[OF this] show ?thesis by simp
next
  case (spawn ob rest)
  then have "set (free_supply g) - {ob} \<subseteq> set (free_supply g')"
    by (auto simp: set_free_supply occupied_def)
  then show ?thesis by (rule free_less)
qed

lemma tick_respawn_returns:
  assumes "0 < length (free_supply g)" "coinDraws g \<noteq> []"
  shows "\<exists>g'. tick_respawn g = Some g'"
proof -
  from assms(2) obtain c cs where cs: "coinDraws g = c # cs" by (cases "coinDraws g") auto
  let ?g1 = "g\<lparr>coinDraws := cs\<rparr>"
  have "set (cellDraws ?g1) - occupied ?g1 \<noteq> {}" using free_nonempty[OF assms(1)] by simp
  from randomEmptyCell_returns[OF this] cs show ?thesis
    by (auto simp: tick_respawn_def Let_def split: option.splits)
qed

lemma tick_returns:
  assumes "4 \<le> length (free_supply g)" "coinDraws g \<noteq> []"
  shows "\<exists>g'. tick g = Some g'"
proof (cases "snakeRef g")
  case Nil
  then show ?thesis by (simp add: tick_empty)
next
  case (Cons s0 rest)
  define d where "d = validateTurn (dirRef g) (nextDirRef g)"
  define head where "head = \<lparr>x = x s0 + x d, y = y s0 + y d\<rparr>"
  show ?thesis
  proof (cases "\<not> within head \<or> head \<in> set (obstaclesRef g) \<or> head \<in> set (snakeRef g)")
    case True
    from tick_hit[OF Cons d_def head_def True] show ?thesis by simp
  next
    case False
    then have ok: "within head" "head \<notin> set (obstaclesRef g)" "head \<notin> set (snakeRef g)"
      by simp_all
    let ?g0 = "g\<lparr>dirRef := d, snakeRef := head # snakeRef g\<rparr>"
    have "set (free_supply g) - {head} \<subseteq> set (free_supply ?g0)"
      by (auto simp: set_free_supply occupied_def)
    from free_less[OF this] assms(1) have n0: "3 \<le> length (free_supply ?g0)" by linarith
    then have "0 < length (free_supply ?g0)" by linarith
    from tick_food_returns[OF this] obtain grew g1
      where f: "tick_food head ?g0 = Some (grew, g1)" by blast
    from tick_food_free[OF f] n0 have "2 \<le> length (free_supply g1)" by linarith
    with tick_poison_free[of g1 head] tick_pop_free[of "tick_poison head g1" grew]
    have n2: "2 \<le> length (free_supply (tick_pop grew (tick_poison head g1)))" by linarith
    then have "0 < length (free_supply (tick_pop grew (tick_poison head g1)))" by linarith
    from tick_obstacle_returns[OF this] obtain g4
      where ob: "tick_obstacle (tick_pop grew (tick_poison head g1)) = Some g4" by blast
    from tick_obstacle_free[OF ob] n2 have n4: "0 < length (free_supply g4)" by linarith
    have "coinDraws g4 = coinDraws g"
      by (simp add: tick_obstacle_fields[OF ob] tick_pop_fields tick_poison_fields
            tick_food_fields[OF f])
    with assms(2) have "coinDraws g4 \<noteq> []" by simp
    from tick_respawn_returns[OF n4 this] obtain g' where "tick_respawn g4 = Some g'"
      by blast
    with f ob show ?thesis by (simp add: tick_move[OF Cons d_def head_def ok])
  qed
qed

subsection \<open>Cells stay in the grid\<close>

lemma in_grid_iff:
  "in_grid g \<longleftrightarrow>
     (\<forall>v \<in> set (cellDraws g). within v) \<and> (\<forall>f. foodRef g = Some f \<longrightarrow> within f)
     \<and> (\<forall>p. poisonRef g = Some p \<longrightarrow> within p) \<and> scoreRef g = score g"
  by (auto simp: in_grid_def list_all_iff split: option.splits)

lemma in_grid_food:
  assumes "in_grid g" "tick_food head g = Some (grew, g1)"
  shows "in_grid g1"
  using assms(2)
proof (cases rule: tick_food_cases)
  case keep
  with assms(1) show ?thesis by simp
next
  case (eat v rest)
  with assms(1) show ?thesis by (auto simp: in_grid_iff)
qed

lemma in_grid_poison: "in_grid g \<Longrightarrow> in_grid (tick_poison head g)"
  by (auto simp: in_grid_iff tick_poison_fields split: if_splits)

lemma in_grid_pop: "in_grid g \<Longrightarrow> in_grid (tick_pop grew g)"
  by (simp add: in_grid_iff tick_pop_fields)

lemma in_grid_obstacle:
  assumes "in_grid g" "tick_obstacle g = Some g'"
  shows "in_grid g'"
  using assms(2)
proof (cases rule: tick_obstacle_cases)
  case skip
  with assms(1) show ?thesis by (simp add: in_grid_iff)
next
  case (spawn ob rest)
  with assms(1) show ?thesis by (auto simp: in_grid_iff)
qed

lemma in_grid_respawn:
  assumes "in_grid g" "tick_respawn g = Some g'"
  shows "in_grid g'"
  using assms(2)
proof (cases rule: tick_respawn_cases)
  case skip
  with assms(1) show ?thesis by simp
next
  case (clear cs)
  with assms(1) show ?thesis by (simp add: in_grid_iff)
next
  case (spawn cs p rest)
  with assms(1) show ?thesis by (auto simp: in_grid_iff)
qed

lemma tick_in_grid:
  assumes "in_grid g" "tick g = Some g'"
  shows "in_grid g'"
  using assms(2)
proof (cases rule: tick_cases)
  case hit
  with assms(1) show ?thesis by (simp add: in_grid_iff)
next
  case (move s0 rest head grew g1 g4)
  from assms(1) have "in_grid (g\<lparr>dirRef := validateTurn (dirRef g) (nextDirRef g),
                                 snakeRef := head # snakeRef g\<rparr>)"
    by (simp add: in_grid_iff)
  from in_grid_food[OF this move(6)] have "in_grid (tick_pop grew (tick_poison head g1))"
    by (intro in_grid_pop in_grid_poison)
  then have "in_grid g4" using move(7) by (rule in_grid_obstacle)
  then show ?thesis using move(8) by (rule in_grid_respawn)
qed

subsection \<open>Start\<close>

lemma start_obstacles_eq:
  "start_obstacles =
     [\<lparr>x = 0, y = 0\<rparr>, \<lparr>x = 0, y = 19\<rparr>, \<lparr>x = 3, y = 0\<rparr>, \<lparr>x = 4, y = 19\<rparr>,
      \<lparr>x = 6, y = 0\<rparr>, \<lparr>x = 8, y = 19\<rparr>, \<lparr>x = 9, y = 0\<rparr>, \<lparr>x = 12, y = 0\<rparr>,
      \<lparr>x = 12, y = 19\<rparr>, \<lparr>x = 15, y = 0\<rparr>, \<lparr>x = 16, y = 19\<rparr>,
      \<lparr>x = 18, y = 0\<rparr>, \<lparr>x = 20, y = 19\<rparr>, \<lparr>x = 21, y = 0\<rparr>, \<lparr>x = 24, y = 0\<rparr>,
      \<lparr>x = 24, y = 19\<rparr>, \<lparr>x = 27, y = 0\<rparr>, \<lparr>x = 0, y = 3\<rparr>, \<lparr>x = 27, y = 4\<rparr>,
      \<lparr>x = 0, y = 6\<rparr>, \<lparr>x = 27, y = 8\<rparr>, \<lparr>x = 0, y = 9\<rparr>, \<lparr>x = 0, y = 12\<rparr>,
      \<lparr>x = 27, y = 12\<rparr>, \<lparr>x = 0, y = 15\<rparr>, \<lparr>x = 27, y = 16\<rparr>,
      \<lparr>x = 0, y = 18\<rparr>]"
  by code_simp

lemma start_cases:
  assumes "start g = Some g'"
  obtains f rest where
    "g' = g\<lparr>snakeRef := [\<lparr>x = 13, y = 10\<rparr>, \<lparr>x = 12, y = 10\<rparr>, \<lparr>x = 11, y = 10\<rparr>,
                          \<lparr>x = 10, y = 10\<rparr>],
             dirRef := \<lparr>x = 1, y = 0\<rparr>, nextDirRef := \<lparr>x = 1, y = 0\<rparr>,
             obstaclesRef := start_obstacles, cellDraws := rest,
             foodRef := Some f, poisonRef := None, score := 0, scoreRef := 0,
             tickMs := START_SPEED_MS, timeLeft := TIME_LIMIT_S, tickCountRef := 0,
             state := Running\<rparr>"
    "f \<in> set (cellDraws g)" "set rest \<subseteq> set (cellDraws g)"
    "f \<notin> set [\<lparr>x = 13, y = 10\<rparr>, \<lparr>x = 12, y = 10\<rparr>, \<lparr>x = 11, y = 10\<rparr>, \<lparr>x = 10, y = 10\<rparr>]"
    "f \<notin> set start_obstacles"
proof -
  let ?g1 = "g\<lparr>snakeRef := [\<lparr>x = 13, y = 10\<rparr>, \<lparr>x = 12, y = 10\<rparr>, \<lparr>x = 11, y = 10\<rparr>,
                            \<lparr>x = 10, y = 10\<rparr>],
               dirRef := \<lparr>x = 1, y = 0\<rparr>, nextDirRef := \<lparr>x = 1, y = 0\<rparr>,
               obstaclesRef := start_obstacles\<rparr>"
  from assms obtain f g2 where r: "randomEmptyCell ?g1 = Some (f, g2)"
    and res: "g' = g2\<lparr>foodRef := Some f, poisonRef := None, score := 0, scoreRef := 0,
                      tickMs := START_SPEED_MS, timeLeft := TIME_LIMIT_S, tickCountRef := 0,
                      state := Running\<rparr>"
    by (auto simp: start_def Let_def GRID_COLS_def GRID_ROWS_def split: option.splits)
  from r obtain rest where g2: "g2 = ?g1\<lparr>cellDraws := rest\<rparr>" and f: "f \<notin> occupied ?g1"
      "f \<in> set (cellDraws ?g1)" and sub: "set rest \<subseteq> set (cellDraws ?g1)"
    by (rule randomEmptyCell_Some)
  show thesis
  proof (rule that[of f rest])
    show "g' = g\<lparr>snakeRef := [\<lparr>x = 13, y = 10\<rparr>, \<lparr>x = 12, y = 10\<rparr>, \<lparr>x = 11, y = 10\<rparr>,
                          \<lparr>x = 10, y = 10\<rparr>],
             dirRef := \<lparr>x = 1, y = 0\<rparr>, nextDirRef := \<lparr>x = 1, y = 0\<rparr>,
             obstaclesRef := start_obstacles, cellDraws := rest,
             foodRef := Some f, poisonRef := None, score := 0, scoreRef := 0,
             tickMs := START_SPEED_MS, timeLeft := TIME_LIMIT_S, tickCountRef := 0,
             state := Running\<rparr>"
      by (simp add: res g2)
    show "f \<in> set (cellDraws g)" using f(2) by simp
    show "set rest \<subseteq> set (cellDraws g)" using sub by simp
    show "f \<notin> set [\<lparr>x = 13, y = 10\<rparr>, \<lparr>x = 12, y = 10\<rparr>, \<lparr>x = 11, y = 10\<rparr>, \<lparr>x = 10, y = 10\<rparr>]"
      using f(1) by (simp add: occupied_def)
    show "f \<notin> set start_obstacles" using f(1) by (simp add: occupied_def)
  qed
qed

lemma start_disjoint:
  assumes "start g = Some g'"
  shows "disjoint_cells g'"
  using assms
proof (cases rule: start_cases)
  case (1 f rest)
  have "set [\<lparr>x = 13, y = 10\<rparr>, \<lparr>x = 12, y = 10\<rparr>, \<lparr>x = 11, y = 10\<rparr>, \<lparr>x = 10, y = 10::int\<rparr>]
          \<inter> set start_obstacles = {}"
    by (simp add: start_obstacles_eq)
  with 1 show ?thesis by (simp add: disjoint_cells_iff del: set_simps)
qed

lemma start_in_grid:
  assumes "in_grid g" "start g = Some g'"
  shows "in_grid g'"
  using assms(2)
proof (cases rule: start_cases)
  case (1 f rest)
  with assms(1) show ?thesis by (auto simp: in_grid_iff)
qed

lemma start_returns:
  assumes "set (cellDraws g)
             - (set [\<lparr>x = 13, y = 10\<rparr>, \<lparr>x = 12, y = 10\<rparr>, \<lparr>x = 11, y = 10\<rparr>, \<lparr>x = 10, y = 10\<rparr>]
                \<union> set start_obstacles \<union> set_option (foodRef g) \<union> set_option (poisonRef g))
           \<noteq> {}"
  shows "\<exists>g'. start g = Some g'"
proof -
  let ?g1 = "g\<lparr>snakeRef := [\<lparr>x = 13, y = 10\<rparr>, \<lparr>x = 12, y = 10\<rparr>, \<lparr>x = 11, y = 10\<rparr>,
                            \<lparr>x = 10, y = 10\<rparr>],
               dirRef := \<lparr>x = 1, y = 0\<rparr>, nextDirRef := \<lparr>x = 1, y = 0\<rparr>,
               obstaclesRef := start_obstacles\<rparr>"
  from assms have "set (cellDraws ?g1) - occupied ?g1 \<noteq> {}"
    by (simp add: occupied_def del: set_simps)
  from randomEmptyCell_returns[OF this] obtain f g2 where "randomEmptyCell ?g1 = Some (f, g2)"
    by blast
  then show ?thesis
    by (simp add: start_def Let_def GRID_COLS_def GRID_ROWS_def)
qed

subsection \<open>More about a tick\<close>

lemma tick_dirRef:
  assumes "tick g = Some g'"
  shows "dirRef g' = validateTurn (dirRef g) (nextDirRef g)"
  using assms
proof (cases rule: tick_cases)
  case hit
  then show ?thesis by simp
next
  case (move s0 rest head grew g1 g4)
  from tick_move_fields(5)[OF move(1-5) assms] show ?thesis .
qed

lemma tick_distinct:
  assumes "distinct (snakeRef g)" "tick g = Some g'"
  shows "distinct (snakeRef g')"
  using assms(2)
proof (cases rule: tick_cases)
  case hit
  with assms(1) show ?thesis by simp
next
  case (move s0 rest head grew g1 g4)
  from tick_move_fields(1)[OF move(1-5) assms(2)] assms(1) move(5)
  show ?thesis by (auto simp: distinct_butlast simp del: butlast.simps)
qed

lemma tick_scoreRef:
  assumes "scoreRef g = score g" "tick g = Some g'"
  shows "scoreRef g' = score g'"
  using assms(2)
proof (cases rule: tick_cases)
  case hit
  with assms(1) show ?thesis by simp
next
  case (move s0 rest head grew g1 g4)
  note fs = tick_food_fields[OF move(6)] tick_poison_fields tick_pop_fields
    tick_obstacle_fields[OF move(7)] tick_respawn_fields[OF move(8)]
  from assms(1) show ?thesis by (simp add: fs)
qed



subsection \<open>Frames and runs\<close>

lemma countdown_fields:
  "snakeRef (countdown n g) = snakeRef g" "obstaclesRef (countdown n g) = obstaclesRef g"
  "foodRef (countdown n g) = foodRef g" "poisonRef (countdown n g) = poisonRef g"
  "score (countdown n g) = score g" "scoreRef (countdown n g) = scoreRef g"
  "cellDraws (countdown n g) = cellDraws g" "coinDraws (countdown n g) = coinDraws g"
  "state (countdown n g) =
     (if timeLeft g \<le> n then Gameover (makeCode (scoreRef g) (TIME_LIMIT_S - timeLeft g)) Timeout
      else state g)"
  "best (countdown n g) =
     (if timeLeft g \<le> n then Math_max (best g) (Num (scoreRef g)) else best g)"
  by (auto simp: countdown_def Let_def)

lemma countdown_keeps:
  "disjoint_cells (countdown n g) = disjoint_cells g"
  "in_grid (countdown n g) = in_grid g"
  by (simp_all add: disjoint_cells_iff in_grid_iff countdown_fields)

lemma step_cases:
  assumes "step secs due g = Some g'"
  obtains (off) "state g \<noteq> Running" "g' = g"
  | (timer) "state g = Running" "\<not> due" "g' = (if secs \<ge> 1 then countdown secs g else g)"
  | (tick) "state g = Running" "due" "tick (if secs \<ge> 1 then countdown secs g else g) = Some g'"
proof (cases "state g = Running")
  case False
  with assms have "g' = g" by (simp add: step_def)
  with False off show thesis by blast
next
  case True
  show thesis
  proof (cases due)
    case False
    with assms True have "g' = (if secs \<ge> 1 then countdown secs g else g)"
      by (simp add: step_def Let_def)
    with True False timer show thesis by blast
  next
    case due: True
    with assms True have "tick (if secs \<ge> 1 then countdown secs g else g) = Some g'"
      by (simp add: step_def Let_def)
    with True due tick show thesis by blast
  qed
qed

lemma step_disjoint:
  assumes "disjoint_cells g" "step secs due g = Some g'"
  shows "disjoint_cells g'"
  using assms(2)
proof (cases rule: step_cases)
  case off
  with assms(1) show ?thesis by simp
next
  case timer
  with assms(1) show ?thesis by (simp add: countdown_keeps)
next
  case tick
  from assms(1) have "disjoint_cells (if secs \<ge> 1 then countdown secs g else g)"
    by (simp add: countdown_keeps)
  then show ?thesis using tick(3) by (rule tick_disjoint)
qed

lemma step_in_grid:
  assumes "in_grid g" "step secs due g = Some g'"
  shows "in_grid g'"
  using assms(2)
proof (cases rule: step_cases)
  case off
  with assms(1) show ?thesis by simp
next
  case timer
  with assms(1) show ?thesis by (simp add: countdown_keeps)
next
  case tick
  from assms(1) have "in_grid (if secs \<ge> 1 then countdown secs g else g)"
    by (simp add: countdown_keeps)
  then show ?thesis using tick(3) by (rule tick_in_grid)
qed

lemma step_body_score:
  assumes "distinct (snakeRef g)" "scoreRef g = score g" "step secs due g = Some g'"
  shows "distinct (snakeRef g') \<and> scoreRef g' = score g'"
  using assms(3)
proof (cases rule: step_cases)
  case off
  with assms(1,2) show ?thesis by simp
next
  case timer
  with assms(1,2) show ?thesis by (simp add: countdown_fields)
next
  case tick
  let ?g1 = "if secs \<ge> 1 then countdown secs g else g"
  from assms(1,2) have "distinct (snakeRef ?g1)" "scoreRef ?g1 = score ?g1"
    by (simp_all add: countdown_fields)
  with tick(3) show ?thesis by (blast intro: tick_distinct tick_scoreRef)
qed

lemma exec_disjoint:
  assumes "state g \<noteq> Idle \<longrightarrow> disjoint_cells g" "exec e g = Some g'"
  shows "state g' \<noteq> Idle \<longrightarrow> disjoint_cells g'"
proof (cases e)
  case Start
  with assms show ?thesis by (auto simp: exec_def start_disjoint split: if_splits)
next
  case (Turn d)
  with assms show ?thesis by (auto simp: exec_def disjoint_cells_iff split: if_splits)
next
  case (Frame secs due)
  with assms(2) have s: "step secs due g = Some g'" by (simp add: exec_def)
  show ?thesis
  proof (cases "state g = Running")
    case True
    with assms(1) have "disjoint_cells g" by simp
    then show ?thesis using s by (simp add: step_disjoint)
  next
    case False
    with s have "g' = g" by (simp add: step_def)
    with assms(1) show ?thesis by simp
  qed
qed

lemma exec_in_grid:
  assumes "in_grid g" "exec e g = Some g'"
  shows "in_grid g'"
proof (cases e)
  case Start
  with assms show ?thesis by (auto simp: exec_def split: if_splits dest: start_in_grid)
next
  case (Turn d)
  with assms show ?thesis by (auto simp: exec_def in_grid_iff split: if_splits)
next
  case (Frame secs due)
  with assms show ?thesis by (auto simp: exec_def dest: step_in_grid)
qed

lemma exec_body_score:
  assumes "distinct (snakeRef g)" "scoreRef g = score g" "exec e g = Some g'"
  shows "distinct (snakeRef g') \<and> scoreRef g' = score g'"
proof (cases e)
  case Start
  show ?thesis
  proof (cases "state g = Running")
    case True
    with assms Start show ?thesis by (simp add: exec_def)
  next
    case False
    with assms Start have "start g = Some g'" by (simp add: exec_def)
    then show ?thesis by (cases rule: start_cases) simp
  qed
next
  case (Turn d)
  with assms show ?thesis by (auto simp: exec_def split: if_splits)
next
  case (Frame secs due)
  with assms(3) have "step secs due g = Some g'" by (simp add: exec_def)
  with assms(1,2) show ?thesis by (rule step_body_score)
qed

lemma run_disjoint:
  "state g \<noteq> Idle \<longrightarrow> disjoint_cells g \<Longrightarrow> run es g = Some g' \<Longrightarrow>
     state g' \<noteq> Idle \<longrightarrow> disjoint_cells g'"
proof (induction es arbitrary: g)
  case Nil
  then show ?case by simp
next
  case (Cons e es)
  from Cons.prems(2) obtain g1 where e: "exec e g = Some g1" and r: "run es g1 = Some g'"
    by (auto split: option.splits)
  from exec_disjoint[OF Cons.prems(1) e] r show ?case by (rule Cons.IH)
qed

lemma run_in_grid: "in_grid g \<Longrightarrow> run es g = Some g' \<Longrightarrow> in_grid g'"
proof (induction es arbitrary: g)
  case Nil
  then show ?case by simp
next
  case (Cons e es)
  from Cons.prems(2) obtain g1 where e: "exec e g = Some g1" and r: "run es g1 = Some g'"
    by (auto split: option.splits)
  from exec_in_grid[OF Cons.prems(1) e] r show ?case by (rule Cons.IH)
qed

lemma run_body_score:
  "distinct (snakeRef g) \<Longrightarrow> scoreRef g = score g \<Longrightarrow> run es g = Some g' \<Longrightarrow>
     distinct (snakeRef g') \<and> scoreRef g' = score g'"
proof (induction es arbitrary: g)
  case Nil
  then show ?case by simp
next
  case (Cons e es)
  from Cons.prems(3) obtain g1 where e: "exec e g = Some g1" and r: "run es g1 = Some g'"
    by (auto split: option.splits)
  from exec_body_score[OF Cons.prems(1,2) e] r show ?case by (intro Cons.IH) simp_all
qed

lemma initial_in_grid: "list_all within cs \<Longrightarrow> in_grid (initial b st cs coins)"
  by (simp add: in_grid_def initial_def)

lemma initial_idle: "state (initial b st cs coins) = Idle"
  by (simp add: initial_def)

lemma reachable_disjoint:
  assumes "run es (initial b st cs coins) = Some g" "state g = Running"
  shows "disjoint_cells g"
  using run_disjoint[OF _ assms(1)] assms(2) by (simp add: initial_idle)

lemma reachable_in_grid:
  assumes "run es (initial b st cs coins) = Some g" "list_all within cs"
  shows "in_grid g"
  using run_in_grid[OF initial_in_grid[OF assms(2)] assms(1)] .

lemma reachable_body_score:
  assumes "run es (initial b st cs coins) = Some g"
  shows "distinct (snakeRef g)" "scoreRef g = score g"
  using run_body_score[OF _ _ assms] by (simp_all add: initial_def)

subsection \<open>The best score\<close>





subsection \<open>Blank entries\<close>

lemma trim_blank:
  assumes "list_all StrWhiteSpaceChar s"
  shows "trim s = []"
proof -
  from assms have d: "dropWhile StrWhiteSpaceChar s = []" by (simp add: list_all_iff)
  show ?thesis unfolding trim_def d by simp
qed

lemma best_initializer_blank:
  "list_all StrWhiteSpaceChar s \<Longrightarrow> best_initializer (Some s) = Num 0"
  by (simp add: best_initializer_def StringToNumber_def trim_blank Let_def)

section \<open>The claims\<close>

text \<open>
  C1. A tick of a snake whose body has no duplicate cell leaves a body without
  duplicate cells: this holds of every tick that completes, and a tick completes when
  the supply holds four different free cells and a coin. Hence the body has no
  duplicate cell in any running configuration that the component reaches from its
  mounted state.
\<close>

theorem C1_tick_no_duplicates:
  assumes "distinct (snakeRef g)"
  shows "(\<forall>g'. tick g = Some g' \<longrightarrow> distinct (snakeRef g'))
         \<and> (4 \<le> length (free_supply g) \<and> coinDraws g \<noteq> [] \<longrightarrow> (\<exists>g'. tick g = Some g'))
         \<and> (run es (initial b st cs coins) = Some h \<and> state h = Running
              \<longrightarrow> distinct (snakeRef h))"
proof (intro conjI allI impI)
  fix g'
  assume "tick g = Some g'"
  with assms show "distinct (snakeRef g')" by (rule tick_distinct)
next
  assume "4 \<le> length (free_supply g) \<and> coinDraws g \<noteq> []"
  then show "\<exists>g'. tick g = Some g'" by (simp add: tick_returns)
next
  assume "run es (initial b st cs coins) = Some h \<and> state h = Running"
  then show "distinct (snakeRef h)" by (blast dest: reachable_body_score(1))
qed

theorem C1_witness:
  "distinct (snakeRef ex_running) \<and> 4 \<le> length (free_supply ex_running)
   \<and> coinDraws ex_running \<noteq> [] \<and> tick ex_running = Some ex_fed \<and> distinct (snakeRef ex_fed)
   \<and> run [Start, Frame 0 True] (initial (Num 0) None
        [\<lparr>x = 14, y = 10\<rparr>, \<lparr>x = 5, y = 5\<rparr>, \<lparr>x = 6, y = 6\<rparr>, \<lparr>x = 7, y = 7\<rparr>, \<lparr>x = 8, y = 8\<rparr>,
         \<lparr>x = 9, y = 9\<rparr>] [True]) = Some ex_fed
   \<and> state ex_fed = Running"
proof -
  have d: "distinct (snakeRef ex_running)" by code_simp
  have s: "4 \<le> length (free_supply ex_running)" by code_simp
  have c: "coinDraws ex_running \<noteq> []" by code_simp
  have t: "tick ex_running = Some ex_fed" by code_simp
  have r: "run [Start, Frame 0 True] (initial (Num 0) None
        [\<lparr>x = 14, y = 10\<rparr>, \<lparr>x = 5, y = 5\<rparr>, \<lparr>x = 6, y = 6\<rparr>, \<lparr>x = 7, y = 7\<rparr>, \<lparr>x = 8, y = 8\<rparr>,
         \<lparr>x = 9, y = 9\<rparr>] [True]) = Some ex_fed" by code_simp
  have st: "state ex_fed = Running" by (simp add: ex_fed_def)
  from C1_tick_no_duplicates[OF d] t have "distinct (snakeRef ex_fed)" by blast
  with d s c t r st show ?thesis by blast
qed

text \<open>
  C2. When the new head (the old head plus the direction that the tick resolves) is
  outside the grid, in an obstacle or in the body, the tick returns, the phase is game
  over with reason hit and the code of the current score, and body, obstacles, food,
  poison, score, tick interval, tick counter, time left and the random supply are as
  before.
\<close>

theorem C2_hit_ends_game:
  assumes "snakeRef g = s0 # rest"
    and "d = validateTurn (dirRef g) (nextDirRef g)"
    and "head = \<lparr>x = x s0 + x d, y = y s0 + y d\<rparr>"
    and "\<not> within head \<or> head \<in> set (obstaclesRef g) \<or> head \<in> set (snakeRef g)"
  shows "\<exists>g'. tick g = Some g'
           \<and> state g' = Gameover (makeCode (scoreRef g) (TIME_LIMIT_S - timeLeft g)) Hit
           \<and> snakeRef g' = snakeRef g \<and> obstaclesRef g' = obstaclesRef g
           \<and> foodRef g' = foodRef g \<and> poisonRef g' = poisonRef g
           \<and> score g' = score g \<and> tickMs g' = tickMs g \<and> tickCountRef g' = tickCountRef g
           \<and> timeLeft g' = timeLeft g \<and> cellDraws g' = cellDraws g \<and> coinDraws g' = coinDraws g"
  by (simp add: tick_hit[OF assms])

theorem C2_witness:
  "snakeRef ex_wall = \<lparr>x = 27, y = 10\<rparr> # [\<lparr>x = 26, y = 10\<rparr>, \<lparr>x = 25, y = 10\<rparr>, \<lparr>x = 24, y = 10\<rparr>]
   \<and> validateTurn (dirRef ex_wall) (nextDirRef ex_wall) = \<lparr>x = 1, y = 0\<rparr>
   \<and> \<not> within \<lparr>x = 28, y = 10\<rparr>
   \<and> (\<exists>g'. tick ex_wall = Some g' \<and> state g' = Gameover ''4712'' Hit
          \<and> snakeRef g' = snakeRef ex_wall \<and> score g' = 105 \<and> tickCountRef g' = 14)"
proof -
  have a: "snakeRef ex_wall = \<lparr>x = 27, y = 10\<rparr> # [\<lparr>x = 26, y = 10\<rparr>, \<lparr>x = 25, y = 10\<rparr>, \<lparr>x = 24, y = 10\<rparr>]"
    by (simp add: ex_wall_def)
  have b: "\<lparr>x = 1, y = 0\<rparr> = validateTurn (dirRef ex_wall) (nextDirRef ex_wall)"
    by (simp add: ex_wall_def validateTurn_def)
  have c: "\<lparr>x = 28, y = 10\<rparr> = \<lparr>x = x \<lparr>x = 27, y = 10\<rparr> + x \<lparr>x = 1, y = 0::int\<rparr>,
                                  y = y \<lparr>x = 27, y = 10::int\<rparr> + y \<lparr>x = 1, y = 0::int\<rparr>\<rparr>"
    by simp
  have w: "\<not> within \<lparr>x = 28, y = 10\<rparr>" by (simp add: within_def GRID_COLS_def)
  then have h: "\<not> within \<lparr>x = 28, y = 10\<rparr> \<or> \<lparr>x = 28, y = 10\<rparr> \<in> set (obstaclesRef ex_wall)
                 \<or> \<lparr>x = 28, y = 10\<rparr> \<in> set (snakeRef ex_wall)" by blast
  have v: "scoreRef ex_wall = 105" "score ex_wall = 105" "tickCountRef ex_wall = 14"
    by (simp_all add: ex_wall_def)
  from C2_hit_ends_game[OF a b c h] a b[symmetric] w v show ?thesis
    by (auto simp: makeCode_def)
qed

text \<open>
  C3. In a running game that the component can reach (by any events, from its mounted
  state, with a supply of cells in the grid), when the new head is the food cell, every
  completed tick adds exactly 5 to the score and one cell to the body, sets the tick
  interval to the old one less 4, not below the minimum, and leaves the food on another
  cell, which is not in the grown body, not an obstacle and not the poison; the tick
  completes when the supply holds four different free cells and a coin.
\<close>

theorem C3_eating_food:
  assumes "run es (initial b st cs coins) = Some g" and "list_all within cs"
    and "state g = Running"
    and "snakeRef g = s0 # rest"
    and "d = validateTurn (dirRef g) (nextDirRef g)"
    and "head = \<lparr>x = x s0 + x d, y = y s0 + y d\<rparr>"
    and "foodRef g = Some head"
  shows "(\<forall>g'. tick g = Some g' \<longrightarrow>
            score g' = score g + 5
            \<and> length (snakeRef g') = length (snakeRef g) + 1
            \<and> tickMs g' = max MIN_SPEED_MS (tickMs g - 4)
            \<and> (\<exists>f. foodRef g' = Some f \<and> f \<noteq> head \<and> f \<notin> set (snakeRef g')
                   \<and> f \<notin> set (obstaclesRef g') \<and> poisonRef g' \<noteq> Some f)
            \<and> state g' = Running)
         \<and> (4 \<le> length (free_supply g) \<and> coinDraws g \<noteq> [] \<longrightarrow> (\<exists>g'. tick g = Some g'))"
proof (intro conjI allI impI)
  fix g'
  assume t: "tick g = Some g'"
  have dis: "disjoint_cells g" using assms(1,3) by (rule reachable_disjoint)
  have grid: "in_grid g" using assms(1,2) by (rule reachable_in_grid)
  from dis assms(7) have free: "head \<notin> set (obstaclesRef g)" "head \<notin> set (snakeRef g)"
    and np: "poisonRef g \<noteq> Some head"
    by (auto simp: disjoint_cells_iff)
  from grid assms(7) have w: "within head" by (simp add: in_grid_iff)
  have hd: "head = \<lparr>x = x s0 + x (validateTurn (dirRef g) (nextDirRef g)),
                     y = y s0 + y (validateTurn (dirRef g) (nextDirRef g))\<rparr>"
    using assms(5,6) by simp
  note f = tick_move_fields[OF assms(4) hd w free t]
  show "score g' = score g + 5" using f(2) assms(7) np by simp
  show "length (snakeRef g') = length (snakeRef g) + 1" using f(1) assms(7) by simp
  show "tickMs g' = max MIN_SPEED_MS (tickMs g - 4)" using f(3) assms(7) np by simp
  show "state g' = Running" using f(7) assms(3) by simp
  have "disjoint_cells g'" using dis t by (rule tick_disjoint)
  moreover have "head \<in> set (snakeRef g')" using f(1) assms(7) by simp
  ultimately show "\<exists>f. foodRef g' = Some f \<and> f \<noteq> head \<and> f \<notin> set (snakeRef g')
                     \<and> f \<notin> set (obstaclesRef g') \<and> poisonRef g' \<noteq> Some f"
    by (auto simp: disjoint_cells_iff)
next
  assume "4 \<le> length (free_supply g) \<and> coinDraws g \<noteq> []"
  then show "\<exists>g'. tick g = Some g'" by (simp add: tick_returns)
qed

theorem C3_witness:
  "run [Start] (initial (Num 0) None
       [\<lparr>x = 14, y = 10\<rparr>, \<lparr>x = 5, y = 5\<rparr>, \<lparr>x = 6, y = 6\<rparr>, \<lparr>x = 7, y = 7\<rparr>, \<lparr>x = 8, y = 8\<rparr>,
        \<lparr>x = 9, y = 9\<rparr>] [True]) = Some ex_running
   \<and> list_all within [\<lparr>x = 14, y = 10\<rparr>, \<lparr>x = 5, y = 5\<rparr>, \<lparr>x = 6, y = 6\<rparr>, \<lparr>x = 7, y = 7\<rparr>,
        \<lparr>x = 8, y = 8\<rparr>, \<lparr>x = 9, y = 9\<rparr>]
   \<and> state ex_running = Running
   \<and> snakeRef ex_running = \<lparr>x = 13, y = 10\<rparr> # [\<lparr>x = 12, y = 10\<rparr>, \<lparr>x = 11, y = 10\<rparr>, \<lparr>x = 10, y = 10\<rparr>]
   \<and> validateTurn (dirRef ex_running) (nextDirRef ex_running) = \<lparr>x = 1, y = 0\<rparr>
   \<and> foodRef ex_running = Some \<lparr>x = 14, y = 10\<rparr>
   \<and> 4 \<le> length (free_supply ex_running) \<and> coinDraws ex_running \<noteq> []
   \<and> tick ex_running = Some ex_fed
   \<and> score ex_fed = score ex_running + 5
   \<and> length (snakeRef ex_fed) = length (snakeRef ex_running) + 1
   \<and> tickMs ex_fed = 136
   \<and> foodRef ex_fed = Some \<lparr>x = 5, y = 5\<rparr>"
proof -
  have r: "run [Start] (initial (Num 0) None
       [\<lparr>x = 14, y = 10\<rparr>, \<lparr>x = 5, y = 5\<rparr>, \<lparr>x = 6, y = 6\<rparr>, \<lparr>x = 7, y = 7\<rparr>, \<lparr>x = 8, y = 8\<rparr>,
        \<lparr>x = 9, y = 9\<rparr>] [True]) = Some ex_running" by code_simp
  have w: "list_all within [\<lparr>x = 14, y = 10\<rparr>, \<lparr>x = 5, y = 5\<rparr>, \<lparr>x = 6, y = 6\<rparr>, \<lparr>x = 7, y = 7\<rparr>,
        \<lparr>x = 8, y = 8\<rparr>, \<lparr>x = 9, y = 9\<rparr>]" by code_simp
  have st: "state ex_running = Running" by (simp add: ex_running_def)
  have sn: "snakeRef ex_running
              = \<lparr>x = 13, y = 10\<rparr> # [\<lparr>x = 12, y = 10\<rparr>, \<lparr>x = 11, y = 10\<rparr>, \<lparr>x = 10, y = 10\<rparr>]"
    by (simp add: ex_running_def)
  have d: "\<lparr>x = 1, y = 0\<rparr> = validateTurn (dirRef ex_running) (nextDirRef ex_running)"
    by (simp add: ex_running_def validateTurn_def)
  have h: "\<lparr>x = 14, y = 10\<rparr> = \<lparr>x = x \<lparr>x = 13, y = 10\<rparr> + x \<lparr>x = 1, y = 0::int\<rparr>,
                                  y = y \<lparr>x = 13, y = 10::int\<rparr> + y \<lparr>x = 1, y = 0::int\<rparr>\<rparr>"
    by simp
  have fo: "foodRef ex_running = Some \<lparr>x = 14, y = 10\<rparr>" by (simp add: ex_running_def)
  have s: "4 \<le> length (free_supply ex_running)" by code_simp
  have c: "coinDraws ex_running \<noteq> []" by (simp add: ex_running_def)
  have t: "tick ex_running = Some ex_fed" by code_simp
  have m: "tickMs ex_fed = 136" "foodRef ex_fed = Some \<lparr>x = 5, y = 5\<rparr>"
    by (simp_all add: ex_fed_def)
  from C3_eating_food[OF r w st sn d h fo] t
  have "score ex_fed = score ex_running + 5
        \<and> length (snakeRef ex_fed) = length (snakeRef ex_running) + 1" by blast
  with r w st sn d[symmetric] fo s c t m show ?thesis by blast
qed

text \<open>
  C4, as the claim states it, fails: after 45 ticks of the example game the head stands
  left of the poison; the next tick eats it, is the 46th, and draws a new poison, so
  that a poison is present after the tick.
\<close>

theorem C4_counterexample:
  "run ex_long_events ex_long_mounted = Some ex_long_before
   \<and> state ex_long_before = Running
   \<and> snakeRef ex_long_before
        = [\<lparr>x = 22, y = 10\<rparr>, \<lparr>x = 21, y = 10\<rparr>, \<lparr>x = 20, y = 10\<rparr>, \<lparr>x = 19, y = 10\<rparr>]
   \<and> validateTurn (dirRef ex_long_before) (nextDirRef ex_long_before) = \<lparr>x = 1, y = 0\<rparr>
   \<and> poisonRef ex_long_before = Some \<lparr>x = 23, y = 10\<rparr>
   \<and> foodRef ex_long_before = Some \<lparr>x = 5, y = 5\<rparr>
   \<and> tick ex_long_before = Some ex_long_after
   \<and> poisonRef ex_long_after = Some \<lparr>x = 3, y = 3\<rparr>"
proof -
  have "run ex_long_events ex_long_mounted = Some ex_long_before" by code_simp
  moreover have "tick ex_long_before = Some ex_long_after" by code_simp
  moreover have "validateTurn (dirRef ex_long_before) (nextDirRef ex_long_before) = \<lparr>x = 1, y = 0\<rparr>"
    by (simp add: ex_long_before_def validateTurn_def)
  ultimately show ?thesis by (simp add: ex_long_before_def ex_long_after_def)
qed

text \<open>
  C4, amended. In a running game that the component can reach, when the new head is
  the poison cell and not the food cell, every completed tick takes exactly 7 from the
  score, sets the tick interval to the old one less 8, not below the minimum, keeps the
  length of the body and removes the eaten poison. After the tick no poison is present,
  except when the tick counter reaches a multiple of 23 on this very tick: then the
  coin of the periodic respawn decides, and when it succeeds a poison is present, on a
  cell of the supply that lies in the grid, is not the eaten cell, and is off the body,
  the obstacles and the food; when it fails no poison is present. The tick completes
  when the supply holds four different free cells and a coin.
\<close>

theorem C4_eating_poison:
  assumes "run es (initial b st cs coins) = Some g" and "list_all within cs"
    and "state g = Running"
    and "snakeRef g = s0 # rest"
    and "d = validateTurn (dirRef g) (nextDirRef g)"
    and "head = \<lparr>x = x s0 + x d, y = y s0 + y d\<rparr>"
    and "poisonRef g = Some head"
    and "foodRef g \<noteq> Some head"
  shows "(\<forall>g'. tick g = Some g' \<longrightarrow>
            score g' = score g - 7
            \<and> tickMs g' = max MIN_SPEED_MS (tickMs g - 8)
            \<and> length (snakeRef g') = length (snakeRef g)
            \<and> (Suc (tickCountRef g) mod POISON_INTERVAL_TICKS \<noteq> 0 \<longrightarrow> poisonRef g' = None)
            \<and> (Suc (tickCountRef g) mod POISON_INTERVAL_TICKS = 0 \<longrightarrow>
                 ((\<exists>bs. coinDraws g = False # bs) \<and> poisonRef g' = None)
                 \<or> ((\<exists>bs. coinDraws g = True # bs)
                     \<and> (\<exists>p. poisonRef g' = Some p \<and> p \<noteq> head
                            \<and> p \<in> set (cellDraws g) \<and> within p
                            \<and> p \<notin> set (snakeRef g') \<and> p \<notin> set (obstaclesRef g')
                            \<and> foodRef g' \<noteq> Some p)))
            \<and> state g' = Running)
         \<and> (4 \<le> length (free_supply g) \<and> coinDraws g \<noteq> [] \<longrightarrow> (\<exists>g'. tick g = Some g'))"
proof (intro conjI allI)
  fix g'
  show "tick g = Some g' \<longrightarrow>
            score g' = score g - 7
            \<and> tickMs g' = max MIN_SPEED_MS (tickMs g - 8)
            \<and> length (snakeRef g') = length (snakeRef g)
            \<and> (Suc (tickCountRef g) mod POISON_INTERVAL_TICKS \<noteq> 0 \<longrightarrow> poisonRef g' = None)
            \<and> (Suc (tickCountRef g) mod POISON_INTERVAL_TICKS = 0 \<longrightarrow>
                 ((\<exists>bs. coinDraws g = False # bs) \<and> poisonRef g' = None)
                 \<or> ((\<exists>bs. coinDraws g = True # bs)
                     \<and> (\<exists>p. poisonRef g' = Some p \<and> p \<noteq> head
                            \<and> p \<in> set (cellDraws g) \<and> within p
                            \<and> p \<notin> set (snakeRef g') \<and> p \<notin> set (obstaclesRef g')
                            \<and> foodRef g' \<noteq> Some p)))
            \<and> state g' = Running"
  proof
    assume t: "tick g = Some g'"
    have dis: "disjoint_cells g" using assms(1,3) by (rule reachable_disjoint)
    have grid: "in_grid g" using assms(1,2) by (rule reachable_in_grid)
    note nf = assms(8)
    from dis assms(7) have free: "head \<notin> set (obstaclesRef g)" "head \<notin> set (snakeRef g)"
      by (auto simp: disjoint_cells_iff)
    from grid assms(7) have w: "within head" by (simp add: in_grid_iff)
    have hd: "head = \<lparr>x = x s0 + x (validateTurn (dirRef g) (nextDirRef g)),
                       y = y s0 + y (validateTurn (dirRef g) (nextDirRef g))\<rparr>"
      using assms(5,6) by simp
    note f = tick_move_fields[OF assms(4) hd w free t]
    have c1: "score g' = score g - 7" using f(2) assms(7) nf by simp
    have c2: "tickMs g' = max MIN_SPEED_MS (tickMs g - 8)" using f(3) assms(7) nf by simp
    have c3: "length (snakeRef g') = length (snakeRef g)" using f(1) assms(4) nf by simp
    have c6: "state g' = Running" using f(7) assms(3) by simp
    have dis': "disjoint_cells g'" using dis t by (rule tick_disjoint)
    have grid': "in_grid g'" using grid t by (rule tick_in_grid)
    have s': "head \<in> set (snakeRef g')" using f(1) assms(4) nf by simp
    let ?d = "validateTurn (dirRef g) (nextDirRef g)"
    from t tick_move[OF assms(4) refl hd w free]
    obtain grew g1 g4 where
      fo: "tick_food head (g\<lparr>dirRef := ?d, snakeRef := head # snakeRef g\<rparr>) = Some (grew, g1)" and
      ob: "tick_obstacle (tick_pop grew (tick_poison head g1)) = Some g4" and
      r: "tick_respawn g4 = Some g'"
      by (auto split: option.splits)
    note fs = tick_food_fields[OF fo] tick_poison_fields tick_pop_fields
      tick_obstacle_fields[OF ob]
    have grew: "\<not> grew" using fs(12) nf by simp
    have p4: "poisonRef g4 = None" using assms(7) by (simp add: fs)
    have c4: "coinDraws g4 = coinDraws g" by (simp add: fs)
    have n4: "tickCountRef g4 = Suc (tickCountRef g)" by (simp add: fs)
    have d4: "set (cellDraws g4) \<subseteq> set (cellDraws g)"
    proof -
      have "g1 = g\<lparr>dirRef := ?d, snakeRef := head # snakeRef g\<rparr>"
        using fs(13) grew by (rule_tac tick_food_cases[OF fo]) simp_all
      then have "cellDraws (tick_pop grew (tick_poison head g1)) = cellDraws g"
        by (simp add: fs)
      with ob show ?thesis by (cases rule: tick_obstacle_cases) simp_all
    qed
    from r have c45: "(Suc (tickCountRef g) mod POISON_INTERVAL_TICKS \<noteq> 0 \<longrightarrow> poisonRef g' = None)
            \<and> (Suc (tickCountRef g) mod POISON_INTERVAL_TICKS = 0 \<longrightarrow>
                 ((\<exists>bs. coinDraws g = False # bs) \<and> poisonRef g' = None)
                 \<or> ((\<exists>bs. coinDraws g = True # bs)
                     \<and> (\<exists>p. poisonRef g' = Some p \<and> p \<noteq> head
                            \<and> p \<in> set (cellDraws g) \<and> within p
                            \<and> p \<notin> set (snakeRef g') \<and> p \<notin> set (obstaclesRef g')
                            \<and> foodRef g' \<noteq> Some p)))"
    proof (cases rule: tick_respawn_cases)
      case skip
      with p4 n4 show ?thesis by simp
    next
      case (clear bs)
      from clear(2) c4 have "coinDraws g = False # bs" by simp
      moreover from clear(3) have "poisonRef g' = None" by simp
      moreover from clear(1) n4 have "Suc (tickCountRef g) mod POISON_INTERVAL_TICKS = 0"
        by simp
      ultimately show ?thesis by blast
    next
      case (spawn bs p rest')
      have pp: "poisonRef g' = Some p" using spawn(3) by simp
      with dis' have "p \<notin> set (snakeRef g')" "p \<notin> set (obstaclesRef g')" "foodRef g' \<noteq> Some p"
        by (auto simp: disjoint_cells_iff)
      moreover from grid' pp have "within p" by (simp add: in_grid_iff)
      moreover from \<open>p \<notin> set (snakeRef g')\<close> s' have "p \<noteq> head" by auto
      moreover from spawn(5) d4 have "p \<in> set (cellDraws g)" by auto
      moreover from spawn(2) c4 have "coinDraws g = True # bs" by simp
      moreover from spawn(1) n4 have "Suc (tickCountRef g) mod POISON_INTERVAL_TICKS = 0"
        by simp
      ultimately show ?thesis using pp by blast
    qed
    show "score g' = score g - 7
            \<and> tickMs g' = max MIN_SPEED_MS (tickMs g - 8)
            \<and> length (snakeRef g') = length (snakeRef g)
            \<and> (Suc (tickCountRef g) mod POISON_INTERVAL_TICKS \<noteq> 0 \<longrightarrow> poisonRef g' = None)
            \<and> (Suc (tickCountRef g) mod POISON_INTERVAL_TICKS = 0 \<longrightarrow>
                 ((\<exists>bs. coinDraws g = False # bs) \<and> poisonRef g' = None)
                 \<or> ((\<exists>bs. coinDraws g = True # bs)
                     \<and> (\<exists>p. poisonRef g' = Some p \<and> p \<noteq> head
                            \<and> p \<in> set (cellDraws g) \<and> within p
                            \<and> p \<notin> set (snakeRef g') \<and> p \<notin> set (obstaclesRef g')
                            \<and> foodRef g' \<noteq> Some p)))
            \<and> state g' = Running"
      by (intro conjI, fact c1, fact c2, fact c3, rule conjunct1[OF c45],
          rule conjunct2[OF c45], fact c6)
  qed
next
  show "4 \<le> length (free_supply g) \<and> coinDraws g \<noteq> [] \<longrightarrow> (\<exists>g'. tick g = Some g')"
    by (simp add: tick_returns)
qed

theorem C4_witness:
  "run ex_long_events (initial (Num 0) None
       [\<lparr>x = 5, y = 5\<rparr>, \<lparr>x = 6, y = 6\<rparr>, \<lparr>x = 23, y = 10\<rparr>, \<lparr>x = 7, y = 7\<rparr>, \<lparr>x = 3, y = 3\<rparr>]
       [True, True]) = Some ex_long_before
   \<and> list_all within [\<lparr>x = 5, y = 5\<rparr>, \<lparr>x = 6, y = 6\<rparr>, \<lparr>x = 23, y = 10\<rparr>, \<lparr>x = 7, y = 7\<rparr>,
        \<lparr>x = 3, y = 3\<rparr>]
   \<and> state ex_long_before = Running
   \<and> snakeRef ex_long_before
        = \<lparr>x = 22, y = 10\<rparr> # [\<lparr>x = 21, y = 10\<rparr>, \<lparr>x = 20, y = 10\<rparr>, \<lparr>x = 19, y = 10\<rparr>]
   \<and> validateTurn (dirRef ex_long_before) (nextDirRef ex_long_before) = \<lparr>x = 1, y = 0\<rparr>
   \<and> poisonRef ex_long_before = Some \<lparr>x = 23, y = 10\<rparr>
   \<and> foodRef ex_long_before \<noteq> Some \<lparr>x = 23, y = 10\<rparr>
   \<and> tick ex_long_before = Some ex_long_after
   \<and> score ex_long_after = score ex_long_before - 7
   \<and> tickMs ex_long_after = max MIN_SPEED_MS (tickMs ex_long_before - 8)
   \<and> length (snakeRef ex_long_after) = length (snakeRef ex_long_before)
   \<and> Suc (tickCountRef ex_long_before) mod POISON_INTERVAL_TICKS = 0
   \<and> coinDraws ex_long_before = [True]
   \<and> poisonRef ex_long_after = Some \<lparr>x = 3, y = 3\<rparr>
   \<and> \<lparr>x = 3, y = 3\<rparr> \<notin> set (snakeRef ex_long_after)
   \<and> \<lparr>x = 3, y = 3\<rparr> \<notin> set (obstaclesRef ex_long_after)
   \<and> foodRef ex_long_after \<noteq> Some \<lparr>x = 3, y = 3\<rparr>"
proof -
  have r: "run ex_long_events (initial (Num 0) None
       [\<lparr>x = 5, y = 5\<rparr>, \<lparr>x = 6, y = 6\<rparr>, \<lparr>x = 23, y = 10\<rparr>, \<lparr>x = 7, y = 7\<rparr>, \<lparr>x = 3, y = 3\<rparr>]
       [True, True]) = Some ex_long_before" by code_simp
  have w: "list_all within [\<lparr>x = 5, y = 5\<rparr>, \<lparr>x = 6, y = 6\<rparr>, \<lparr>x = 23, y = 10\<rparr>, \<lparr>x = 7, y = 7\<rparr>,
        \<lparr>x = 3, y = 3\<rparr>]" by code_simp
  have st: "state ex_long_before = Running" by (simp add: ex_long_before_def)
  have sn: "snakeRef ex_long_before
        = \<lparr>x = 22, y = 10\<rparr> # [\<lparr>x = 21, y = 10\<rparr>, \<lparr>x = 20, y = 10\<rparr>, \<lparr>x = 19, y = 10\<rparr>]"
    by (simp add: ex_long_before_def)
  have d: "\<lparr>x = 1, y = 0\<rparr> = validateTurn (dirRef ex_long_before) (nextDirRef ex_long_before)"
    by (simp add: ex_long_before_def validateTurn_def)
  have h: "\<lparr>x = 23, y = 10\<rparr> = \<lparr>x = x \<lparr>x = 22, y = 10\<rparr> + x \<lparr>x = 1, y = 0::int\<rparr>,
                                  y = y \<lparr>x = 22, y = 10::int\<rparr> + y \<lparr>x = 1, y = 0::int\<rparr>\<rparr>"
    by simp
  have po: "poisonRef ex_long_before = Some \<lparr>x = 23, y = 10\<rparr>"
    by (simp add: ex_long_before_def)
  have nf: "foodRef ex_long_before \<noteq> Some \<lparr>x = 23, y = 10\<rparr>"
    by (simp add: ex_long_before_def)
  have t: "tick ex_long_before = Some ex_long_after" by code_simp
  have n: "Suc (tickCountRef ex_long_before) mod POISON_INTERVAL_TICKS = 0"
    by (simp add: ex_long_before_def POISON_INTERVAL_TICKS_def)
  have co: "coinDraws ex_long_before = [True]" by (simp add: ex_long_before_def)
  have pa: "poisonRef ex_long_after = Some \<lparr>x = 3, y = 3\<rparr>" by (simp add: ex_long_after_def)
  note c4 = C4_eating_poison[OF r w st sn d h po nf]
  from c4 t
  have a: "score ex_long_after = score ex_long_before - 7
        \<and> tickMs ex_long_after = max MIN_SPEED_MS (tickMs ex_long_before - 8)
        \<and> length (snakeRef ex_long_after) = length (snakeRef ex_long_before)" by blast
  from c4 t n co
  have "\<exists>p. poisonRef ex_long_after = Some p
          \<and> p \<notin> set (snakeRef ex_long_after) \<and> p \<notin> set (obstaclesRef ex_long_after)
          \<and> foodRef ex_long_after \<noteq> Some p" by auto
  with pa have b: "\<lparr>x = 3, y = 3\<rparr> \<notin> set (snakeRef ex_long_after)
      \<and> \<lparr>x = 3, y = 3\<rparr> \<notin> set (obstaclesRef ex_long_after)
      \<and> foodRef ex_long_after \<noteq> Some \<lparr>x = 3, y = 3\<rparr>" by auto
  from a b r w st sn d[symmetric] po nf t n co pa show ?thesis by blast
qed

text \<open>
  C5. For target and current vectors of length 8 the check of the unlock effect is
  true exactly when every index has the two positions at most 2 apart; the effect
  then sets a flag that was off.
\<close>

theorem C5_allCorrect:
  assumes "length targetPositions = PIN_COUNT" and "length currentPositions = PIN_COUNT"
  shows "(allCorrect targetPositions currentPositions
            \<longleftrightarrow> (\<forall>i<8. \<bar>currentPositions ! i - targetPositions ! i\<bar> \<le> 2))
         \<and> (unlock_effect targetPositions currentPositions False
            \<longleftrightarrow> (\<forall>i<8. \<bar>currentPositions ! i - targetPositions ! i\<bar> \<le> 2))"
  using assms
  by (auto simp: allCorrect_def unlock_effect_def list_all_length nth_enumerate_eq
        TOLERANCE_def PIN_COUNT_def)

theorem C5_witness:
  "length [10, 20, 30, 40, 50, 60, 70, 99 :: int] = PIN_COUNT
   \<and> length [12, 18, 30, 41, 49, 62, 68, 97 :: int] = PIN_COUNT
   \<and> allCorrect [10, 20, 30, 40, 50, 60, 70, 99] [12, 18, 30, 41, 49, 62, 68, 97]
   \<and> \<bar>[12, 18, 30, 41, 49, 62, 68, 97 :: int] ! 7 - [10, 20, 30, 40, 50, 60, 70, 99] ! 7\<bar> \<le> 2
   \<and> \<not> allCorrect [10, 20, 30, 40, 50, 60, 70, 99] [12, 18, 30, 41, 49, 62, 68, 96]"
proof -
  have a: "length [10, 20, 30, 40, 50, 60, 70, 99 :: int] = PIN_COUNT" by (simp add: PIN_COUNT_def)
  have b: "length [12, 18, 30, 41, 49, 62, 68, 97 :: int] = PIN_COUNT" by (simp add: PIN_COUNT_def)
  have c: "allCorrect [10, 20, 30, 40, 50, 60, 70, 99] [12, 18, 30, 41, 49, 62, 68, 97]"
    by code_simp
  have d: "\<not> allCorrect [10, 20, 30, 40, 50, 60, 70, 99] [12, 18, 30, 41, 49, 62, 68, 96]"
    by code_simp
  from C5_allCorrect[OF a b] c
  have "\<forall>i<8. \<bar>[12, 18, 30, 41, 49, 62, 68, 97 :: int] ! i - [10, 20, 30, 40, 50, 60, 70, 99] ! i\<bar> \<le> 2"
    by blast
  moreover have "(7::nat) < 8" by simp
  ultimately
  have "\<bar>[12, 18, 30, 41, 49, 62, 68, 97 :: int] ! 7 - [10, 20, 30, 40, 50, 60, 70, 99] ! 7\<bar> \<le> 2"
    by blast
  with a b c d show ?thesis by blast
qed

text \<open>
  C6. \<^verbatim>\<open>makeCode\<close> gives 4712 for every score of at least 100 and the placeholder
  for every score below, whatever the elapsed time; so at 100 and at 99.
\<close>

theorem C6_makeCode:
  "(scoreVal \<ge> 100 \<longrightarrow> makeCode scoreVal elapsedSec = ''4712'')
   \<and> (scoreVal < 100 \<longrightarrow>
         makeCode scoreVal elapsedSec = ''Code non d'' @ [CHR 0xE9] @ ''bloqu'' @ [CHR 0xE9])
   \<and> makeCode 100 elapsedSec = ''4712''
   \<and> makeCode 99 elapsedSec = ''Code non d'' @ [CHR 0xE9] @ ''bloqu'' @ [CHR 0xE9]"
  by (simp add: makeCode_def)

theorem C6_witness:
  "(250::int) \<ge> 100 \<and> makeCode 250 40 = ''4712''
   \<and> (-3::int) < 100 \<and> makeCode (-3) 75 = ''Code non d'' @ [CHR 0xE9] @ ''bloqu'' @ [CHR 0xE9]"
  using C6_makeCode[of 250 40] C6_makeCode[of "-3" 75] by simp

text \<open>
  C7. The direction step keeps the active direction \<open>d\<close> when the pending \<open>p\<close> is its
  exact opposite and takes \<open>p\<close> otherwise. Every completed tick sets the active
  direction to that result, so a direction of the table is never followed by its
  opposite; the tick completes when the supply holds four different free cells and a
  coin.
\<close>

theorem C7_validateTurn:
  "(x p = - x d \<and> y p = - y d \<longrightarrow> validateTurn d p = d)
   \<and> (\<not> (x p = - x d \<and> y p = - y d) \<longrightarrow> validateTurn d p = p)
   \<and> (d \<in> set DIRS \<longrightarrow> validateTurn d p \<noteq> \<lparr>x = - x d, y = - y d\<rparr>)
   \<and> (\<forall>g'. tick g = Some g' \<longrightarrow>
         dirRef g' = validateTurn (dirRef g) (nextDirRef g)
         \<and> (dirRef g \<in> set DIRS \<longrightarrow> dirRef g' \<noteq> \<lparr>x = - x (dirRef g), y = - y (dirRef g)\<rparr>))
   \<and> (4 \<le> length (free_supply g) \<and> coinDraws g \<noteq> [] \<longrightarrow> (\<exists>g'. tick g = Some g'))"
proof -
  have rev: "validateTurn c n \<noteq> \<lparr>x = - x c, y = - y c\<rparr>" if "c \<in> set DIRS" for c n :: Vec
    using that by (cases n) (auto simp: validateTurn_def DIRS_def)
  have "validateTurn d p = d" if "x p = - x d \<and> y p = - y d"
    using that by (simp add: validateTurn_def)
  moreover have "validateTurn d p = p" if "\<not> (x p = - x d \<and> y p = - y d)"
    using that by (auto simp: validateTurn_def)
  moreover have "\<exists>g'. tick g = Some g'" if "4 \<le> length (free_supply g) \<and> coinDraws g \<noteq> []"
    using that by (simp add: tick_returns)
  ultimately show ?thesis using rev by (auto simp: tick_dirRef)
qed

theorem C7_witness:
  "x \<lparr>x = -1, y = 0\<rparr> = - x \<lparr>x = 1, y = 0::int\<rparr> \<and> y \<lparr>x = -1, y = 0::int\<rparr> = - y \<lparr>x = 1, y = 0::int\<rparr>
   \<and> validateTurn \<lparr>x = 1, y = 0\<rparr> \<lparr>x = -1, y = 0\<rparr> = \<lparr>x = 1, y = 0\<rparr>
   \<and> \<not> (x \<lparr>x = 0, y = 1\<rparr> = - x \<lparr>x = 1, y = 0::int\<rparr> \<and> y \<lparr>x = 0, y = 1::int\<rparr> = - y \<lparr>x = 1, y = 0::int\<rparr>)
   \<and> validateTurn \<lparr>x = 1, y = 0\<rparr> \<lparr>x = 0, y = 1\<rparr> = \<lparr>x = 0, y = 1\<rparr>
   \<and> \<lparr>x = 1, y = 0\<rparr> \<in> set DIRS
   \<and> tick ex_wall \<noteq> None
   \<and> dirRef ex_wall \<in> set DIRS
   \<and> nextDirRef ex_wall = \<lparr>x = - x (dirRef ex_wall), y = - y (dirRef ex_wall)\<rparr>
   \<and> map_option dirRef (tick ex_wall) = Some (dirRef ex_wall)
   \<and> 4 \<le> length (free_supply ex_running) \<and> coinDraws ex_running \<noteq> []
   \<and> tick ex_running = Some ex_fed"
proof -
  have a: "\<lparr>x = 1, y = 0\<rparr> \<in> set DIRS" by (simp add: DIRS_def)
  have w: "dirRef ex_wall = \<lparr>x = 1, y = 0\<rparr>" "nextDirRef ex_wall = \<lparr>x = -1, y = 0\<rparr>"
    by (simp_all add: ex_wall_def)
  obtain g' where t: "tick ex_wall = Some g'" by (simp add: ex_wall_def tick_def Let_def within_def GRID_COLS_def validateTurn_def)
  have f: "4 \<le> length (free_supply ex_running)" by code_simp
  have c: "coinDraws ex_running \<noteq> []" by (simp add: ex_running_def)
  have e: "tick ex_running = Some ex_fed" by code_simp
  from C7_validateTurn[of "\<lparr>x = -1, y = 0\<rparr>" "\<lparr>x = 1, y = 0\<rparr>" ex_wall]
       C7_validateTurn[of "\<lparr>x = 0, y = 1\<rparr>" "\<lparr>x = 1, y = 0\<rparr>" ex_running] a w t f c e
  show ?thesis by auto
qed




text \<open>
  C9, as the claim states it, fails: a stored string that is not a number, such as
  \<^verbatim>\<open>abc\<close>, is truthy, goes to \<^verbatim>\<open>Number\<close> and the read yields \<^verbatim>\<open>NaN\<close>, not the default 0.
\<close>

theorem C9_counterexample:
  "best_initializer (Some ''abc'') = NaN \<and> best_initializer (Some ''abc'') \<noteq> Num 0
   \<and> best (mount (Some ''abc'') [] []) = NaN"
  by code_simp

text \<open>
  C9, amended. The startup read yields the default 0 when the entry is absent, is the
  empty string or holds white space only, and that is the best score of the mounted
  component.
\<close>

theorem C9_best_initializer:
  "best_initializer None = Num 0
   \<and> best_initializer (Some []) = Num 0
   \<and> (list_all StrWhiteSpaceChar s \<longrightarrow> best_initializer (Some s) = Num 0)
   \<and> best (mount None cs coins) = Num 0
   \<and> best (mount (Some []) cs coins) = Num 0
   \<and> (list_all StrWhiteSpaceChar s \<longrightarrow> best (mount (Some s) cs coins) = Num 0)"
  by (simp add: best_initializer_blank mount_def initial_def) (simp add: best_initializer_def)

theorem C9_witness:
  "list_all StrWhiteSpaceChar [CHR 0x20, CHR 0x09]
   \<and> best_initializer (Some [CHR 0x20, CHR 0x09]) = Num 0
   \<and> best (mount (Some [CHR 0x20, CHR 0x09]) [] []) = Num 0"
proof -
  have a: "list_all StrWhiteSpaceChar [CHR 0x20, CHR 0x09]" by code_simp
  from C9_best_initializer[of "[CHR 0x20, CHR 0x09]" "[]" "[]"] a show ?thesis by blast
qed

text \<open>
  C10. There is a food cell, and food, poison, obstacles and body do not overlap:
  after every \<^verbatim>\<open>start\<close> that completes, from any configuration; after every completed
  tick of a configuration of which this holds; hence in every running configuration
  that the component reaches from its mounted state. \<^verbatim>\<open>start\<close> completes when the
  supply holds a cell off the new body, the new obstacles and the old food and poison;
  a tick completes when the supply holds four different free cells and a coin.
\<close>

theorem C10_cells_disjoint:
  "(\<forall>g'. start g0 = Some g' \<longrightarrow> disjoint_cells g' \<and> state g' = Running)
   \<and> (disjoint_cells g1 \<longrightarrow> (\<forall>g'. tick g1 = Some g' \<longrightarrow> disjoint_cells g'))
   \<and> (run es (initial b st cs coins) = Some g \<and> state g = Running \<longrightarrow> disjoint_cells g)
   \<and> (set (cellDraws g0)
         - (set [\<lparr>x = 13, y = 10\<rparr>, \<lparr>x = 12, y = 10\<rparr>, \<lparr>x = 11, y = 10\<rparr>, \<lparr>x = 10, y = 10\<rparr>]
            \<union> set start_obstacles \<union> set_option (foodRef g0) \<union> set_option (poisonRef g0)) \<noteq> {}
       \<longrightarrow> (\<exists>g'. start g0 = Some g'))
   \<and> (4 \<le> length (free_supply g1) \<and> coinDraws g1 \<noteq> [] \<longrightarrow> (\<exists>g'. tick g1 = Some g'))"
proof (intro conjI allI impI)
  fix g'
  assume s: "start g0 = Some g'"
  then show "disjoint_cells g'" by (rule start_disjoint)
  from s show "state g' = Running" by (cases rule: start_cases) simp
next
  fix g'
  assume "disjoint_cells g1" "tick g1 = Some g'"
  then show "disjoint_cells g'" by (rule tick_disjoint)
next
  assume "run es (initial b st cs coins) = Some g \<and> state g = Running"
  then show "disjoint_cells g" by (blast intro: reachable_disjoint)
next
  assume "set (cellDraws g0)
         - (set [\<lparr>x = 13, y = 10\<rparr>, \<lparr>x = 12, y = 10\<rparr>, \<lparr>x = 11, y = 10\<rparr>, \<lparr>x = 10, y = 10\<rparr>]
            \<union> set start_obstacles \<union> set_option (foodRef g0) \<union> set_option (poisonRef g0)) \<noteq> {}"
  then show "\<exists>g'. start g0 = Some g'" by (rule start_returns)
next
  assume "4 \<le> length (free_supply g1) \<and> coinDraws g1 \<noteq> []"
  then show "\<exists>g'. tick g1 = Some g'" by (simp add: tick_returns)
qed

theorem C10_witness:
  "start ex_mounted = Some ex_running \<and> disjoint_cells ex_running
   \<and> tick ex_running = Some ex_fed \<and> disjoint_cells ex_fed
   \<and> run [Start, Frame 0 True] (initial (Num 0) None
        [\<lparr>x = 14, y = 10\<rparr>, \<lparr>x = 5, y = 5\<rparr>, \<lparr>x = 6, y = 6\<rparr>, \<lparr>x = 7, y = 7\<rparr>, \<lparr>x = 8, y = 8\<rparr>,
         \<lparr>x = 9, y = 9\<rparr>] [True]) = Some ex_fed
   \<and> state ex_fed = Running
   \<and> \<lparr>x = 14, y = 10\<rparr> \<in> set (cellDraws ex_mounted)
        - (set [\<lparr>x = 13, y = 10\<rparr>, \<lparr>x = 12, y = 10\<rparr>, \<lparr>x = 11, y = 10\<rparr>, \<lparr>x = 10, y = 10\<rparr>]
            \<union> set start_obstacles \<union> set_option (foodRef ex_mounted)
            \<union> set_option (poisonRef ex_mounted))
   \<and> 4 \<le> length (free_supply ex_running) \<and> coinDraws ex_running \<noteq> []"
proof -
  note c10 = C10_cells_disjoint[of ex_mounted ex_running "[Start, Frame 0 True]" "Num 0" None
      "[\<lparr>x = 14, y = 10\<rparr>, \<lparr>x = 5, y = 5\<rparr>, \<lparr>x = 6, y = 6\<rparr>, \<lparr>x = 7, y = 7\<rparr>, \<lparr>x = 8, y = 8\<rparr>,
         \<lparr>x = 9, y = 9\<rparr>]" "[True]" ex_fed]
  have s: "start ex_mounted = Some ex_running" by code_simp
  have t: "tick ex_running = Some ex_fed" by code_simp
  have r: "run [Start, Frame 0 True] (initial (Num 0) None
        [\<lparr>x = 14, y = 10\<rparr>, \<lparr>x = 5, y = 5\<rparr>, \<lparr>x = 6, y = 6\<rparr>, \<lparr>x = 7, y = 7\<rparr>, \<lparr>x = 8, y = 8\<rparr>,
         \<lparr>x = 9, y = 9\<rparr>] [True]) = Some ex_fed" by code_simp
  have st: "state ex_fed = Running" by (simp add: ex_fed_def)
  have m: "\<lparr>x = 14, y = 10\<rparr> \<in> set (cellDraws ex_mounted)
        - (set [\<lparr>x = 13, y = 10\<rparr>, \<lparr>x = 12, y = 10\<rparr>, \<lparr>x = 11, y = 10\<rparr>, \<lparr>x = 10, y = 10\<rparr>]
            \<union> set start_obstacles \<union> set_option (foodRef ex_mounted)
            \<union> set_option (poisonRef ex_mounted))"
    by (simp add: ex_mounted_def initial_def start_obstacles_eq)
  have f: "4 \<le> length (free_supply ex_running)" by code_simp
  have c: "coinDraws ex_running \<noteq> []" by (simp add: ex_running_def)
  from c10 s have d1: "disjoint_cells ex_running" by blast
  from c10 d1 t have d2: "disjoint_cells ex_fed" by blast
  from s d1 t d2 r st m f c show ?thesis by blast
qed

end
